theory Spec2Isabelle
  imports Main
begin

section \<open>Retention policies\<close>

text \<open>
  The repository holds the retention logic twice: \<^verbatim>\<open>src/models.py\<close>, used by the
  command-line script \<^verbatim>\<open>src/prune_postgres.py\<close>, and its reworked copy
  \<^verbatim>\<open>src/apps/prune_server/models.py\<close>, used by the HTTP service
  \<^verbatim>\<open>src/apps/prune_server/main.py\<close>. Definitions prefixed \<open>cli_\<close> embed the
  former, definitions prefixed \<open>srv_\<close> the latter; where both files have the same
  text the definition carries the source's name alone.
\<close>

datatype error =
    ValueError string
  | IndexError
  | OverflowError
  | AttributeError
  | DatabaseError
  | ReError

record DataRetentionPolicyConditions =
  cond_column :: string
  cond_operator :: string
  cond_value :: string

record DataRetentionPolicyTimeRetention =
  dt_target_column :: string
  retention_seconds :: int

record DataRetentionPolicy =
  timeretention :: "DataRetentionPolicyTimeRetention option"
  conditions :: "DataRetentionPolicyConditions list option"

record PostgresTableModel =
  table_name :: string
  schema :: string
  retention_policy :: "DataRetentionPolicy option"

text \<open>
  Python truth values: an instance of a dataclass is always true, \<open>None\<close> is false,
  and a list is true when it has an element.
\<close>

definition truthy_obj :: "'a option \<Rightarrow> bool" where
  "truthy_obj x = (case x of None \<Rightarrow> False | Some _ \<Rightarrow> True)"

definition truthy_list :: "'a list option \<Rightarrow> bool" where
  "truthy_list x = (case x of None \<Rightarrow> False | Some xs \<Rightarrow> xs \<noteq> [])"

text \<open>\<^verbatim>\<open>DataRetentionPolicy.validate\<close>, the same in both files.\<close>

definition DataRetentionPolicy_validate :: "DataRetentionPolicy \<Rightarrow> error + bool" where
  "DataRetentionPolicy_validate P =
     (if \<not> truthy_obj (timeretention P) \<and> \<not> truthy_list (conditions P)
      then Inl (ValueError ''Either timeretention or conditions must be provided'')
      else if truthy_obj (timeretention P) \<and> truthy_list (conditions P)
      then Inl (ValueError ''Only one of timeretention or conditions can be provided'')
      else Inr True)"

text \<open>
  The specification's reading of a policy: the number of its two variants that are
  non-empty (a time retention that is present, a condition list with an element).
\<close>

definition nonempty_variants :: "DataRetentionPolicy \<Rightarrow> nat" where
  "nonempty_variants P =
     (if timeretention P = None then 0 else 1) +
     (if conditions P = None \<or> conditions P = Some [] then 0 else 1)"

section \<open>The world outside the repository\<close>

text \<open>
  The code talks to a PostgreSQL session through \<^verbatim>\<open>psycopg\<close>, reads the wall
  clock and calls Python's \<^verbatim>\<open>re\<close> and \<^verbatim>\<open>datetime\<close>. None of that is code of
  the repository; it is modelled by the record \<open>env\<close>, threaded through every function
  that touches it. Names are strings over the characters with code points below 256;
  names with characters beyond them (the decimal digits of other scripts, which
  Python's \<^verbatim>\<open>\\d\<close> and \<^verbatim>\<open>strptime\<close> also read as digits) are outside the model.
\<close>

datatype statement =
    SelectExists string string
  | SelectPartitions string string
  | SelectPartitionsByName string
  | DropTableIfExists string string
  | DeleteWhereCondition string string
  | Commit
  | Close

text \<open>
  \<^descr>[\<open>exists_answer\<close>] what the server answers to the existence query for a table
    name and a schema, given the statements sent before it;
  \<^descr>[\<open>partitions_answer\<close>] the child names the server returns to a partition query,
    in its order, given the statements sent before it;
  \<^descr>[\<open>rejects\<close>] which statement the server answers with an error, given the
    statements issued before it (a lock, a dependency, an aborted transaction);
  \<^descr>[\<open>issued\<close>] every statement sent so far, oldest first;
  \<^descr>[\<open>utc_clock\<close>, \<open>clock_reads\<close>] the \<open>n\<close>-th reading of the wall clock, in
    microseconds since 0001-01-01T00:00:00 UTC, and how many readings were taken;
  \<^descr>[\<open>local_utcoffset\<close>] the offset of the machine's local time zone, in seconds
    east of UTC;
  \<^descr>[\<open>re_other\<close>] what \<^verbatim>\<open>re.match\<close> does with the partition pattern of a table
    name that leaves the fragment of regular expressions modelled below (it raises
    \<^verbatim>\<open>re.error\<close>, or matches, or does not);
  \<^descr>[\<open>db_reachable\<close>] whether \<^verbatim>\<open>psycopg.connect\<close> succeeds.

  What a statement does to the database is not part of the model: the server is the
  three functions \<open>exists_answer\<close>, \<open>partitions_answer\<close> and \<open>rejects\<close>, free to
  answer each statement by everything that was sent before it. A statement carries
  the Python strings the code interpolates into it.
\<close>

record env =
  exists_answer :: "statement list \<Rightarrow> string \<Rightarrow> string \<Rightarrow> bool"
  partitions_answer :: "statement list \<Rightarrow> statement \<Rightarrow> string list"
  rejects :: "statement list \<Rightarrow> statement \<Rightarrow> bool"
  issued :: "statement list"
  utc_clock :: "nat \<Rightarrow> int"
  clock_reads :: nat
  local_utcoffset :: int
  re_other :: "string \<Rightarrow> string \<Rightarrow> error + bool"
  db_reachable :: bool

definition issue :: "statement \<Rightarrow> env \<Rightarrow> bool \<times> env" where
  "issue s w = (rejects w (issued w) s, w\<lparr>issued := issued w @ [s]\<rparr>)"

definition select_exists :: "string \<Rightarrow> string \<Rightarrow> env \<Rightarrow> (error + bool) \<times> env" where
  "select_exists tn sn w =
     (case issue (SelectExists tn sn) w of
        (True, w1) \<Rightarrow> (Inl DatabaseError, w1)
      | (False, w1) \<Rightarrow> (Inr (exists_answer w (issued w) tn sn), w1))"

text \<open>
  The rows of the service's partition query when it is sent in the session \<open>w\<close>: the
  names the server lists as inheriting from the relation \<open>tn\<close> of the schema \<open>sn\<close>.
\<close>

definition child_names :: "env \<Rightarrow> string \<Rightarrow> string \<Rightarrow> string list" where
  "child_names w tn sn = partitions_answer w (issued w) (SelectPartitions tn sn)"

definition select_partitions :: "string \<Rightarrow> string \<Rightarrow> env \<Rightarrow> (error + string list) \<times> env" where
  "select_partitions tn sn w =
     (case issue (SelectPartitions tn sn) w of
        (True, w1) \<Rightarrow> (Inl DatabaseError, w1)
      | (False, w1) \<Rightarrow> (Inr (child_names w tn sn), w1))"

definition select_partitions_by_name :: "string \<Rightarrow> env \<Rightarrow> (error + string list) \<times> env" where
  "select_partitions_by_name tn w =
     (case issue (SelectPartitionsByName tn) w of
        (True, w1) \<Rightarrow> (Inl DatabaseError, w1)
      | (False, w1) \<Rightarrow>
          (Inr (partitions_answer w (issued w) (SelectPartitionsByName tn)), w1))"

definition drop_table_if_exists :: "string \<Rightarrow> string \<Rightarrow> env \<Rightarrow> (error + unit) \<times> env" where
  "drop_table_if_exists sn n w =
     (case issue (DropTableIfExists sn n) w of
        (True, w1) \<Rightarrow> (Inl DatabaseError, w1)
      | (False, w1) \<Rightarrow> (Inr (), w1))"

definition delete_where_condition :: "string \<Rightarrow> string \<Rightarrow> env \<Rightarrow> (error + unit) \<times> env" where
  "delete_where_condition sn n w =
     (case issue (DeleteWhereCondition sn n) w of
        (True, w1) \<Rightarrow> (Inl DatabaseError, w1)
      | (False, w1) \<Rightarrow> (Inr (), w1))"

definition commit :: "env \<Rightarrow> (error + unit) \<times> env" where
  "commit w =
     (case issue Commit w of
        (True, w1) \<Rightarrow> (Inl DatabaseError, w1)
      | (False, w1) \<Rightarrow> (Inr (), w1))"

section \<open>Table validation\<close>

text \<open>\<^verbatim>\<open>PostgresTableModel.validate\<close> of \<^verbatim>\<open>src/apps/prune_server/models.py\<close>.\<close>

definition srv_validate :: "PostgresTableModel \<Rightarrow> env \<Rightarrow> (error + bool) \<times> env" where
  "srv_validate t w =
     (case select_exists (table_name t) (schema t) w of
        (Inl e, w1) \<Rightarrow> (Inl e, w1)
      | (Inr table_exists, w1) \<Rightarrow>
          (case retention_policy t of
             None \<Rightarrow> (Inr (table_exists \<and> True), w1)
           | Some P \<Rightarrow>
               (case DataRetentionPolicy_validate P of
                  Inl e \<Rightarrow> (Inl e, w1)
                | Inr valid_policy \<Rightarrow> (Inr (table_exists \<and> valid_policy), w1))))"

text \<open>
  \<^verbatim>\<open>PostgresTableModel.validate\<close> of \<^verbatim>\<open>src/models.py\<close>. The three bindings of
  \<open>table_exists\<close> are the source's three assignments, in order: the initial
  \<^verbatim>\<open>False\<close>, the assignment under \<^verbatim>\<open>if not exists\<close> and the unconditional
  \<^verbatim>\<open>table_exists = True\<close> that follows it.
\<close>

definition cli_validate :: "PostgresTableModel \<Rightarrow> env \<Rightarrow> (error + bool) \<times> env" where
  "cli_validate t w =
     (case select_exists (table_name t) (schema t) w of
        (Inl e, w1) \<Rightarrow> (Inl e, w1)
      | (Inr exists, w1) \<Rightarrow>
          (let table_exists0 = False;
               table_exists1 = (if \<not> exists then False else table_exists0);
               table_exists = True
           in case retention_policy t of
                None \<Rightarrow> (Inr (table_exists \<and> True), w1)
              | Some P \<Rightarrow>
                  (case DataRetentionPolicy_validate P of
                     Inl e \<Rightarrow> (Inl e, w1)
                   | Inr valid_table \<Rightarrow> (Inr (table_exists \<and> valid_table), w1))))"

section \<open>Partition names\<close>

subsection \<open>The pattern\<close>

text \<open>
  Both files build \<^verbatim>\<open>pattern = f"^{self.table_name}_p\\d{{8}}_\\d{{6}}$"\<close> and test
  \<^verbatim>\<open>re.match(pattern, partition_name)\<close>. The table name is interpolated as it
  is, so it is read as a regular expression. The model covers the table names made of
  ordinary characters (each matches itself) and of dots (a dot matches any character
  but a line feed); the other special characters of \<^verbatim>\<open>re\<close> are left to
  \<open>re_other\<close>. Among the characters of the model \<^verbatim>\<open>\\d\<close> matches the ten digits
  \<open>0\<close> to \<open>9\<close> and no other. \<^verbatim>\<open>$\<close> matches at the end of the name and also before
  a line feed that ends the name.
\<close>

datatype atom = Lit char | Dot | Digit

definition is_digit :: "char \<Rightarrow> bool" where
  "is_digit c = (c \<in> set ''0123456789'')"

definition regex_special :: "char \<Rightarrow> bool" where
  "regex_special c = (c \<in> set ''.^$*+?{}[]|()'' \<or> c = CHR 0x5C)"

fun compile_name :: "string \<Rightarrow> atom list option" where
  "compile_name [] = Some []"
| "compile_name (c # cs) =
     (if c = CHR ''.'' then map_option ((#) Dot) (compile_name cs)
      else if regex_special c then None
      else map_option ((#) (Lit c)) (compile_name cs))"

fun atom_ok :: "atom \<Rightarrow> char \<Rightarrow> bool" where
  "atom_ok (Lit a) c = (c = a)"
| "atom_ok Dot c = (c \<noteq> CHR 0x0A)"
| "atom_ok Digit c = is_digit c"

fun match_atoms :: "atom list \<Rightarrow> string \<Rightarrow> string option" where
  "match_atoms [] s = Some s"
| "match_atoms (a # as) [] = None"
| "match_atoms (a # as) (c # cs) = (if atom_ok a c then match_atoms as cs else None)"

definition at_dollar :: "string \<Rightarrow> bool" where
  "at_dollar s = (s = [] \<or> s = [CHR 0x0A])"

definition partition_pattern :: "string \<Rightarrow> atom list option" where
  "partition_pattern tn =
     map_option (\<lambda>as. as @ [Lit (CHR ''_''), Lit (CHR ''p'')] @ replicate 8 Digit @
                       [Lit (CHR ''_'')] @ replicate 6 Digit)
       (compile_name tn)"

definition re_match :: "env \<Rightarrow> string \<Rightarrow> string \<Rightarrow> error + bool" where
  "re_match w tn partition_name =
     (case partition_pattern tn of
        None \<Rightarrow> re_other w tn partition_name
      | Some as \<Rightarrow>
          Inr (case match_atoms as partition_name of
                 None \<Rightarrow> False
               | Some rest \<Rightarrow> at_dollar rest))"

subsection \<open>Splitting and indexing\<close>

text \<open>
  \<^verbatim>\<open>str.split(sep)\<close> for a separator \<open>a # as\<close>: the pieces between the
  occurrences of the separator, found from the left without overlap.
\<close>

fun split_from :: "char \<Rightarrow> string \<Rightarrow> string \<Rightarrow> string list" where
  "split_from a as [] = [[]]"
| "split_from a as (c # cs) =
     (if c = a \<and> take (length as) cs = as
      then [] # split_from a as (drop (length as) cs)
      else (case split_from a as cs of
              seg # segs \<Rightarrow> (c # seg) # segs
            | [] \<Rightarrow> [[c]]))"

definition split_underscore :: "string \<Rightarrow> string list" where
  "split_underscore s = split_from (CHR ''_'') [] s"

definition split_underscore_p :: "string \<Rightarrow> string list" where
  "split_underscore_p s = split_from (CHR ''_'') ''p'' s"

definition index_at :: "'a list \<Rightarrow> nat \<Rightarrow> error + 'a" where
  "index_at xs i = (if i < length xs then Inr (xs ! i) else Inl IndexError)"

text \<open>\<open>index_from_end xs k\<close> is Python's \<^verbatim>\<open>xs[-k]\<close>.\<close>

definition index_from_end :: "'a list \<Rightarrow> nat \<Rightarrow> error + 'a" where
  "index_from_end xs k =
     (if 1 \<le> k \<and> k \<le> length xs then Inr (xs ! (length xs - k)) else Inl IndexError)"

subsection \<open>Dates and times\<close>

record datetime =
  year :: int
  month :: int
  day :: int
  hour :: int
  minute :: int
  second :: int
  microsecond :: int

definition is_leap :: "int \<Rightarrow> bool" where
  "is_leap y = (y mod 4 = 0 \<and> (y mod 100 \<noteq> 0 \<or> y mod 400 = 0))"

definition days_in_month :: "int \<Rightarrow> int \<Rightarrow> int" where
  "days_in_month y m =
     (if m = 2 then (if is_leap y then 29 else 28)
      else if m = 4 \<or> m = 6 \<or> m = 9 \<or> m = 11 then 30 else 31)"

definition days_before_year :: "int \<Rightarrow> int" where
  "days_before_year y = (y - 1) * 365 + (y - 1) div 4 - (y - 1) div 100 + (y - 1) div 400"

definition days_before_month :: "int \<Rightarrow> int \<Rightarrow> int" where
  "days_before_month y m = (\<Sum>k \<leftarrow> [1..m - 1]. days_in_month y k)"

definition ymd2ord :: "int \<Rightarrow> int \<Rightarrow> int \<Rightarrow> int" where
  "ymd2ord y m d = days_before_year y + days_before_month y m + d"

text \<open>
  The instant of a date and time read in UTC (\<^verbatim>\<open>.replace(tzinfo=timezone.utc)\<close>), in
  microseconds since 0001-01-01T00:00:00 UTC.
\<close>

definition utc_micros :: "datetime \<Rightarrow> int" where
  "utc_micros dt =
     (((ymd2ord (year dt) (month dt) (day dt) - 1) * 86400
        + hour dt * 3600 + minute dt * 60 + second dt) * 1000000) + microsecond dt"

text \<open>The last instant a \<^verbatim>\<open>datetime\<close> can hold: 9999-12-31T23:59:59.999999.\<close>

definition max_micros :: int where
  "max_micros = 3652059 * 86400 * 1000000 - 1"

text \<open>
  \<^verbatim>\<open>datetime.datetime(y, m, d, H, M, S)\<close>: a \<^verbatim>\<open>ValueError\<close> for a field out of
  range. Of the library's errors only the class is modelled; the text is a tag.
\<close>

definition make_datetime :: "int \<Rightarrow> int \<Rightarrow> int \<Rightarrow> int \<Rightarrow> int \<Rightarrow> int \<Rightarrow> error + datetime" where
  "make_datetime y m d H M S =
     (if 1 \<le> y \<and> y \<le> 9999 \<and> 1 \<le> m \<and> m \<le> 12 \<and> 1 \<le> d \<and> d \<le> days_in_month y m \<and>
         0 \<le> H \<and> H < 24 \<and> 0 \<le> M \<and> M < 60 \<and> 0 \<le> S \<and> S < 60
      then Inr \<lparr>year = y, month = m, day = d, hour = H, minute = M, second = S, microsecond = 0\<rparr>
      else Inl (ValueError ''out of range''))"

text \<open>
  \<^verbatim>\<open>datetime.strptime\<close> turns the format into a regular expression, one group of
  alternatives per directive, matches it at the start of the text and refuses text it
  did not consume. \<open>alternatives\<close> lists, for one directive, the values its group can
  take at the start of the text with what is left after each, in the order the
  matcher tries them; \<open>parse_format\<close> chains the directives, so that its first result
  is the match the backtracking matcher finds. The fields are then read by the name
  of their directive; a directive the format lacks leaves the library's default.
\<close>

datatype directive = Dir_Y | Dir_m | Dir_d | Dir_H | Dir_M | Dir_S | Dir_space

definition digit_val :: "char \<Rightarrow> int" where
  "digit_val c = int (of_char c) - 48"

definition is_space :: "char \<Rightarrow> bool" where
  "is_space c = (of_char c \<in> {9, 10, 11, 12, 13, 28, 29, 30, 31, 32, 133, 160 :: nat})"

definition two_digits :: "(char \<Rightarrow> bool) \<Rightarrow> (char \<Rightarrow> bool) \<Rightarrow> string \<Rightarrow> (int \<times> string) list" where
  "two_digits P Q s =
     (case s of
        a # b # r \<Rightarrow>
          (if is_digit a \<and> is_digit b \<and> P a \<and> Q b then [(10 * digit_val a + digit_val b, r)] else [])
      | _ \<Rightarrow> [])"

definition one_digit :: "(char \<Rightarrow> bool) \<Rightarrow> string \<Rightarrow> (int \<times> string) list" where
  "one_digit P s =
     (case s of
        a # r \<Rightarrow> (if is_digit a \<and> P a then [(digit_val a, r)] else [])
      | _ \<Rightarrow> [])"

definition in_range :: "string \<Rightarrow> char \<Rightarrow> bool" where
  "in_range cs c = (c \<in> set cs)"

fun alternatives :: "directive \<Rightarrow> string \<Rightarrow> (int \<times> string) list" where
  "alternatives Dir_Y s =
     (case s of
        a # b # c # d # r \<Rightarrow>
          (if is_digit a \<and> is_digit b \<and> is_digit c \<and> is_digit d
           then [(1000 * digit_val a + 100 * digit_val b + 10 * digit_val c + digit_val d, r)]
           else [])
      | _ \<Rightarrow> [])"
| "alternatives Dir_m s =
     two_digits (in_range ''1'') (in_range ''012'') s @
     two_digits (in_range ''0'') (in_range ''123456789'') s @
     one_digit (in_range ''123456789'') s"
| "alternatives Dir_d s =
     two_digits (in_range ''3'') (in_range ''01'') s @
     two_digits (in_range ''12'') is_digit s @
     two_digits (in_range ''0'') (in_range ''123456789'') s @
     one_digit (in_range ''123456789'') s @
     (case s of
        a # r \<Rightarrow> (if a = CHR '' '' then one_digit (in_range ''123456789'') r else [])
      | _ \<Rightarrow> [])"
| "alternatives Dir_H s =
     two_digits (in_range ''2'') (in_range ''0123'') s @
     two_digits (in_range ''01'') is_digit s @
     one_digit is_digit s"
| "alternatives Dir_M s =
     two_digits (in_range ''012345'') is_digit s @
     one_digit is_digit s"
| "alternatives Dir_S s =
     two_digits (in_range ''6'') (in_range ''01'') s @
     two_digits (in_range ''012345'') is_digit s @
     one_digit is_digit s"
| "alternatives Dir_space s =
     map (\<lambda>k. (0, drop k s)) (rev [1..<Suc (length (takeWhile is_space s))])"

fun parse_format :: "directive list \<Rightarrow> string \<Rightarrow> (int list \<times> string) list" where
  "parse_format [] s = [([], s)]"
| "parse_format (d # ds) s =
     concat (map (\<lambda>(v, r). map (\<lambda>(vs, r'). (v # vs, r')) (parse_format ds r)) (alternatives d s))"

definition field_or :: "(directive \<rightharpoonup> int) \<Rightarrow> directive \<Rightarrow> int \<Rightarrow> int" where
  "field_or f d dflt = (case f d of None \<Rightarrow> dflt | Some v \<Rightarrow> v)"

definition strptime :: "directive list \<Rightarrow> string \<Rightarrow> error + datetime" where
  "strptime fmt s =
     (case parse_format fmt s of
        [] \<Rightarrow> Inl (ValueError ''does not match format'')
      | (vs, rest) # _ \<Rightarrow>
          (if rest \<noteq> [] then Inl (ValueError ''unconverted data remains'')
           else (let f = map_of (zip fmt vs)
                 in make_datetime (field_or f Dir_Y 1900) (field_or f Dir_m 1) (field_or f Dir_d 1)
                      (field_or f Dir_H 0) (field_or f Dir_M 0) (field_or f Dir_S 0))))"

text \<open>The two formats of the source: \<^verbatim>\<open>"%Y%m%d%H%M%S"\<close> and \<^verbatim>\<open>"%Y%m%d %H%M%S"\<close>.\<close>

definition srv_format :: "directive list" where
  "srv_format = [Dir_Y, Dir_m, Dir_d, Dir_H, Dir_M, Dir_S]"

definition cli_format :: "directive list" where
  "cli_format = [Dir_Y, Dir_m, Dir_d, Dir_space, Dir_H, Dir_M, Dir_S]"

text \<open>
  The \<^verbatim>\<open>try\<close> block of \<^verbatim>\<open>_drop_table_partitions\<close> (prune_server/models.py, lines
  116 to 123): the date is the piece after the first \<^verbatim>\<open>"_p"\<close>, up to its first
  underscore; the time is the piece after the last underscore.
\<close>

definition srv_partition_datetime :: "string \<Rightarrow> error + datetime" where
  "srv_partition_datetime partition_name =
     (case index_at (split_underscore_p partition_name) 1 of
        Inl e \<Rightarrow> Inl e
      | Inr after_p \<Rightarrow>
          (case index_at (split_underscore after_p) 0 of
             Inl e \<Rightarrow> Inl e
           | Inr date_str_part \<Rightarrow>
               (case index_from_end (split_underscore partition_name) 1 of
                  Inl e \<Rightarrow> Inl e
                | Inr time_str_part \<Rightarrow> strptime srv_format (date_str_part @ time_str_part))))"

text \<open>
  The same step of \<^verbatim>\<open>_drop_table\<close> (models.py, lines 117 to 120): the date is
  characters 1 to 8 of the piece before the last underscore, the time the piece after
  it.
\<close>

definition cli_partition_datetime :: "string \<Rightarrow> error + datetime" where
  "cli_partition_datetime partition_name =
     (case index_from_end (split_underscore partition_name) 2 of
        Inl e \<Rightarrow> Inl e
      | Inr partition_date_str \<Rightarrow>
          (let partition_date = take 8 (drop 1 partition_date_str)
           in case index_from_end (split_underscore partition_name) 1 of
                Inl e \<Rightarrow> Inl e
              | Inr partition_time_str \<Rightarrow>
                  strptime cli_format (partition_date @ '' '' @ partition_time_str)))"

section \<open>The clock and the cutoff\<close>

text \<open>
  \<^verbatim>\<open>datetime.timedelta(seconds=n)\<close> raises \<^verbatim>\<open>OverflowError\<close> beyond 999999999
  days, and so does a subtraction that leaves the range of \<^verbatim>\<open>datetime\<close>.
\<close>

definition timedelta_seconds :: "int \<Rightarrow> error + int" where
  "timedelta_seconds n = (if \<bar>n div 86400\<bar> \<le> 999999999 then Inr n else Inl OverflowError)"

definition datetime_sub :: "int \<Rightarrow> int \<Rightarrow> error + int" where
  "datetime_sub t delta =
     (let r = t - delta * 1000000
      in if 0 \<le> r \<and> r \<le> max_micros then Inr r else Inl OverflowError)"

text \<open>\<^verbatim>\<open>datetime.datetime.now(datetime.timezone.utc)\<close>, as an instant.\<close>

definition now_utc :: "env \<Rightarrow> int \<times> env" where
  "now_utc w = (utc_clock w (clock_reads w), w\<lparr>clock_reads := Suc (clock_reads w)\<rparr>)"

text \<open>
  \<^verbatim>\<open>datetime.datetime.now()\<close>: the local wall clock without a zone, as the
  microseconds its fields count from 0001-01-01T00:00:00.
\<close>

definition now_local :: "env \<Rightarrow> int \<times> env" where
  "now_local w =
     (utc_clock w (clock_reads w) + local_utcoffset w * 1000000,
      w\<lparr>clock_reads := Suc (clock_reads w)\<rparr>)"

text \<open>
  \<^verbatim>\<open>.replace(tzinfo=timezone(timedelta(hours=-5)))\<close> on a wall-clock value: the
  fields stay, the zone says they are five hours behind UTC, so the instant is five
  hours later than the fields read in UTC.
\<close>

definition replace_tz_minus5 :: "int \<Rightarrow> int" where
  "replace_tz_minus5 wall = wall + 5 * 3600 * 1000000"

section \<open>Pruning, service version\<close>

definition caught_index_or_value :: "error \<Rightarrow> bool" where
  "caught_index_or_value e = (case e of IndexError \<Rightarrow> True | ValueError m \<Rightarrow> True | _ \<Rightarrow> False)"

text \<open>The body of the \<^verbatim>\<open>for\<close> loop of \<^verbatim>\<open>_drop_table_partitions\<close>.\<close>

definition srv_partition_step ::
  "PostgresTableModel \<Rightarrow> int \<Rightarrow> string \<Rightarrow> env \<Rightarrow> (error + unit) \<times> env" where
  "srv_partition_step t retention_secs partition_name w =
     (case re_match w (table_name t) partition_name of
        Inl e \<Rightarrow> (Inl e, w)
      | Inr False \<Rightarrow> (Inr (), w)
      | Inr True \<Rightarrow>
          (case srv_partition_datetime partition_name of
             Inl e \<Rightarrow> (if caught_index_or_value e then (Inr (), w) else (Inl e, w))
           | Inr partition_datetime \<Rightarrow>
               (case timedelta_seconds retention_secs of
                  Inl e \<Rightarrow> (Inl e, w)
                | Inr retention_delta \<Rightarrow>
                    (case now_utc w of
                       (now, w1) \<Rightarrow>
                         (case datetime_sub now retention_delta of
                            Inl e \<Rightarrow> (Inl e, w1)
                          | Inr cutoff_datetime \<Rightarrow>
                              (if utc_micros partition_datetime < cutoff_datetime
                               then (case drop_table_if_exists (schema t) partition_name w1 of
                                       (Inl e_drop, w2) \<Rightarrow> (Inr (), w2)
                                     | (Inr u, w2) \<Rightarrow> (Inr (), w2))
                               else (Inr (), w1)))))))"

fun srv_partition_loop ::
  "PostgresTableModel \<Rightarrow> int \<Rightarrow> string list \<Rightarrow> env \<Rightarrow> (error + unit) \<times> env" where
  "srv_partition_loop t retention_secs [] w = (Inr (), w)"
| "srv_partition_loop t retention_secs (partition_name # rest) w =
     (case srv_partition_step t retention_secs partition_name w of
        (Inl e, w1) \<Rightarrow> (Inl e, w1)
      | (Inr u, w1) \<Rightarrow> srv_partition_loop t retention_secs rest w1)"

definition srv_drop_table_partitions :: "PostgresTableModel \<Rightarrow> env \<Rightarrow> (error + unit) \<times> env" where
  "srv_drop_table_partitions t w =
     (case select_partitions (table_name t) (schema t) w of
        (Inl e, w1) \<Rightarrow> (Inl e, w1)
      | (Inr child_partitions, w1) \<Rightarrow>
          (case retention_policy t of
             None \<Rightarrow> (Inr (), w1)
           | Some P \<Rightarrow>
               (case timeretention P of
                  None \<Rightarrow> (Inr (), w1)
                | Some tr \<Rightarrow>
                    (case srv_partition_loop t (retention_seconds tr) child_partitions w1 of
                       (Inl e, w2) \<Rightarrow> (Inl e, w2)
                     | (Inr u, w2) \<Rightarrow> commit w2))))"

text \<open>
  \<^verbatim>\<open>_delete_records_by_condition\<close> is a placeholder in the source: it prints and
  sends nothing to the database.
\<close>

definition srv_delete_records_by_condition ::
  "PostgresTableModel \<Rightarrow> env \<Rightarrow> (error + unit) \<times> env" where
  "srv_delete_records_by_condition t w = (Inr (), w)"

definition srv_prune :: "PostgresTableModel \<Rightarrow> env \<Rightarrow> (error + unit) \<times> env" where
  "srv_prune t w =
     (case retention_policy t of
        None \<Rightarrow> (Inr (), w)
      | Some P \<Rightarrow>
          (if truthy_obj (timeretention P) then srv_drop_table_partitions t w
           else if truthy_list (conditions P) then srv_delete_records_by_condition t w
           else (Inr (), w)))"

section \<open>Pruning, script version\<close>

text \<open>The body of the \<^verbatim>\<open>for\<close> loop of \<^verbatim>\<open>_drop_table\<close> (models.py).\<close>

definition cli_partition_step ::
  "PostgresTableModel \<Rightarrow> string \<Rightarrow> env \<Rightarrow> (error + unit) \<times> env" where
  "cli_partition_step t partition_name w =
     (case re_match w (table_name t) partition_name of
        Inl e \<Rightarrow> (Inl e, w)
      | Inr False \<Rightarrow> (Inr (), w)
      | Inr True \<Rightarrow>
          (case cli_partition_datetime partition_name of
             Inl e \<Rightarrow> (Inl e, w)
           | Inr partition_datetime \<Rightarrow>
               (case retention_policy t of
                  None \<Rightarrow> (Inl AttributeError, w)
                | Some P \<Rightarrow>
                    (case timeretention P of
                       None \<Rightarrow> (Inl AttributeError, w)
                     | Some tr \<Rightarrow>
                         (case timedelta_seconds (retention_seconds tr) of
                            Inl e \<Rightarrow> (Inl e, w)
                          | Inr retention_time \<Rightarrow>
                              (case now_local w of
                                 (now, w1) \<Rightarrow>
                                   (case datetime_sub now retention_time of
                                      Inl e \<Rightarrow> (Inl e, w1)
                                    | Inr naive_retention_date \<Rightarrow>
                                        (let retention_date = replace_tz_minus5 naive_retention_date
                                         in if utc_micros partition_datetime < retention_date
                                            then drop_table_if_exists (schema t) partition_name w1
                                            else (Inr (), w1)))))))))"

fun cli_partition_loop ::
  "PostgresTableModel \<Rightarrow> string list \<Rightarrow> env \<Rightarrow> (error + unit) \<times> env" where
  "cli_partition_loop t [] w = (Inr (), w)"
| "cli_partition_loop t (partition_name # rest) w =
     (case cli_partition_step t partition_name w of
        (Inl e, w1) \<Rightarrow> (Inl e, w1)
      | (Inr u, w1) \<Rightarrow> cli_partition_loop t rest w1)"

definition cli_drop_table :: "PostgresTableModel \<Rightarrow> env \<Rightarrow> (error + unit) \<times> env" where
  "cli_drop_table t w =
     (case select_partitions_by_name (table_name t) w of
        (Inl e, w1) \<Rightarrow> (Inl e, w1)
      | (Inr child_partitions, w1) \<Rightarrow>
          (case cli_partition_loop t child_partitions w1 of
             (Inl e, w2) \<Rightarrow> (Inl e, w2)
           | (Inr u, w2) \<Rightarrow>
               (case commit w2 of
                  (Inl e, w3) \<Rightarrow> (Inl e, w3)
                | (Inr u, w3) \<Rightarrow>
                    (case drop_table_if_exists (schema t) (table_name t) w3 of
                       (Inl e, w4) \<Rightarrow> (Inl e, w4)
                     | (Inr u, w4) \<Rightarrow> commit w4))))"

definition cli_delete_records :: "PostgresTableModel \<Rightarrow> env \<Rightarrow> (error + unit) \<times> env" where
  "cli_delete_records t w =
     (case delete_where_condition (schema t) (table_name t) w of
        (Inl e, w1) \<Rightarrow> (Inl e, w1)
      | (Inr u, w1) \<Rightarrow> commit w1)"

definition cli_prune :: "PostgresTableModel \<Rightarrow> env \<Rightarrow> (error + unit) \<times> env" where
  "cli_prune t w =
     (case retention_policy t of
        None \<Rightarrow> (Inr (), w)
      | Some P \<Rightarrow>
          (if truthy_obj (timeretention P) then cli_drop_table t w
           else if truthy_list (conditions P) then cli_delete_records t w
           else (Inr (), w)))"

section \<open>The coordinator\<close>

record ApiDataRetentionPolicyTimeRetention =
  api_dt_target_column :: string
  api_retention_seconds :: int

record ApiDataRetentionPolicyConditions =
  api_column :: string
  api_operator :: string
  api_value :: string

record ApiDataRetentionPolicy =
  api_timeretention :: "ApiDataRetentionPolicyTimeRetention option"
  api_conditions :: "ApiDataRetentionPolicyConditions list option"

record ApiTableConfig =
  api_table_name :: string
  api_schema_name :: string
  api_retention_policy :: ApiDataRetentionPolicy

record PruneResponseDetail =
  res_table_name :: string
  res_schema_name :: string
  status :: string
  message :: "string option"

datatype http_exception = HTTPException nat string

text \<open>\<^verbatim>\<open>str(e)\<close>; for the errors of libraries and of the driver the text is a tag.\<close>

definition str_error :: "error \<Rightarrow> string" where
  "str_error e =
     (case e of
        ValueError m \<Rightarrow> m
      | IndexError \<Rightarrow> ''IndexError''
      | OverflowError \<Rightarrow> ''OverflowError''
      | AttributeError \<Rightarrow> ''AttributeError''
      | DatabaseError \<Rightarrow> ''DatabaseError''
      | ReError \<Rightarrow> ''re.error'')"

text \<open>Lines 113 to 139 of \<^verbatim>\<open>main.py\<close>: the request's entry as a domain object.\<close>

definition to_domain :: "ApiTableConfig \<Rightarrow> PostgresTableModel" where
  "to_domain table_config =
     (let domain_time_retention =
            (case api_timeretention (api_retention_policy table_config) of
               None \<Rightarrow> None
             | Some tr \<Rightarrow>
                 Some \<lparr>dt_target_column = api_dt_target_column tr,
                       retention_seconds = api_retention_seconds tr\<rparr>);
          domain_conditions =
            (if truthy_list (api_conditions (api_retention_policy table_config))
             then map_option
                    (map (\<lambda>cond. \<lparr>cond_column = api_column cond, cond_operator = api_operator cond,
                                  cond_value = api_value cond\<rparr>))
                    (api_conditions (api_retention_policy table_config))
             else None);
          domain_retention_policy =
            \<lparr>timeretention = domain_time_retention, conditions = domain_conditions\<rparr>
      in \<lparr>table_name = api_table_name table_config,
          schema = api_schema_name table_config,
          retention_policy = Some domain_retention_policy\<rparr>)"

definition detail :: "ApiTableConfig \<Rightarrow> string \<Rightarrow> string \<Rightarrow> PruneResponseDetail" where
  "detail table_config st msg =
     \<lparr>res_table_name = api_table_name table_config,
      res_schema_name = api_schema_name table_config,
      status = st, message = Some msg\<rparr>"

definition error_detail :: "ApiTableConfig \<Rightarrow> error \<Rightarrow> PruneResponseDetail" where
  "error_detail table_config e =
     (case e of
        ValueError m \<Rightarrow> detail table_config ''error'' (str_error e)
      | _ \<Rightarrow> detail table_config ''error'' (''An unexpected error occurred: '' @ str_error e))"

text \<open>
  The body of the \<^verbatim>\<open>for\<close> loop of \<^verbatim>\<open>prune_tables\<close>: the one record it appends
  to \<^verbatim>\<open>results\<close>, and the session afterwards.
\<close>

definition process_table_config :: "ApiTableConfig \<Rightarrow> env \<Rightarrow> PruneResponseDetail \<times> env" where
  "process_table_config table_config w =
     (let table_model = to_domain table_config
      in case srv_validate table_model w of
           (Inl e, w1) \<Rightarrow> (error_detail table_config e, w1)
         | (Inr False, w1) \<Rightarrow>
             (detail table_config ''error''
                (''Validation failed for table '' @ api_schema_name table_config @ ''.'' @
                 api_table_name table_config), w1)
         | (Inr True, w1) \<Rightarrow>
             (if truthy_obj (retention_policy table_model)
              then (case srv_prune table_model w1 of
                      (Inl e, w2) \<Rightarrow> (error_detail table_config e, w2)
                    | (Inr u, w2) \<Rightarrow>
                        (detail table_config ''success''
                           (''Successfully processed table '' @ schema table_model @ ''.'' @
                            table_name table_model), w2))
              else (detail table_config ''skipped''
                      (''No retention policy provided for '' @ schema table_model @ ''.'' @
                       table_name table_model @ ''. Nothing to prune.''), w1)))"

fun prune_loop ::
  "ApiTableConfig list \<Rightarrow> PruneResponseDetail list \<Rightarrow> env \<Rightarrow> PruneResponseDetail list \<times> env" where
  "prune_loop [] results w = (results, w)"
| "prune_loop (table_config # rest) results w =
     (case process_table_config table_config w of
        (r, w1) \<Rightarrow> prune_loop rest (results @ [r]) w1)"

text \<open>
  \<^verbatim>\<open>prune_tables\<close>: the connection is opened first (a failure is the service's
  answer 503), the loop runs, and the \<^verbatim>\<open>finally\<close> clause closes the connection.
\<close>

definition prune_tables ::
  "ApiTableConfig list \<Rightarrow> env \<Rightarrow> (http_exception + PruneResponseDetail list) \<times> env" where
  "prune_tables request_tables w =
     (if \<not> db_reachable w
      then (Inl (HTTPException 503 ''Database connection unavailable''), w)
      else (case prune_loop request_tables [] w of
              (results, w1) \<Rightarrow> (Inr results, snd (issue Close w1))))"

section \<open>The naming convention, as the specification words it\<close>

text \<open>
  \<open>{parent}_p{YYYYMMDD}_{HHMMSS}\<close>: the parent's name, \<open>_p\<close>, eight digits, an
  underscore and six digits, and nothing else. \<open>follows_convention\<close> decides it by
  cutting the name at the places the convention fixes.
\<close>

definition is_word_char :: "char \<Rightarrow> bool" where
  "is_word_char c =
     (c \<in> set ''abcdefghijklmnopqrstuvwxyzABCDEFGHIJKLMNOPQRSTUVWXYZ0123456789_'')"

definition digits :: "nat \<Rightarrow> string \<Rightarrow> bool" where
  "digits n ds = (length ds = n \<and> list_all is_digit ds)"

definition conventional_name :: "string \<Rightarrow> string \<Rightarrow> string \<Rightarrow> string" where
  "conventional_name tn ds ts = tn @ ''_p'' @ ds @ ''_'' @ ts"

definition follows_convention :: "string \<Rightarrow> string \<Rightarrow> bool" where
  "follows_convention tn partition_name =
     (let ds = take 8 (drop (length tn + 2) partition_name);
          ts = drop (length tn + 11) partition_name
      in digits 8 ds \<and> digits 6 ts \<and> partition_name = conventional_name tn ds ts)"

section \<open>Eligible partitions\<close>

text \<open>
  A partition name is eligible for the table \<open>t\<close> at the \<open>k\<close>-th reading of the clock
  when the filter accepts it, the service decodes it, and the decoded instant lies
  strictly before that reading minus \<open>d\<close> seconds.
\<close>

definition eligible_at :: "env \<Rightarrow> PostgresTableModel \<Rightarrow> int \<Rightarrow> string \<Rightarrow> nat \<Rightarrow> bool" where
  "eligible_at w t d n k =
     (re_match w (table_name t) n = Inr True \<and>
      (case srv_partition_datetime n of
         Inl e \<Rightarrow> False
       | Inr pdt \<Rightarrow> utc_micros pdt < utc_clock w k - d * 1000000))"

section \<open>Writing a partition name\<close>

text \<open>
  The naming convention read from the other side: the name that stands for a date
  and time under a parent, with the year in four digits and every other field in two.
\<close>

definition digit_char :: "int \<Rightarrow> char" where
  "digit_char k = ''0123456789'' ! nat k"

definition pad2 :: "int \<Rightarrow> string" where
  "pad2 n = [digit_char (n div 10), digit_char (n mod 10)]"

definition pad4 :: "int \<Rightarrow> string" where
  "pad4 n = pad2 (n div 100) @ pad2 (n mod 100)"

definition encode_partition_name :: "string \<Rightarrow> datetime \<Rightarrow> string" where
  "encode_partition_name tn dt =
     conventional_name tn (pad4 (year dt) @ pad2 (month dt) @ pad2 (day dt))
       (pad2 (hour dt) @ pad2 (minute dt) @ pad2 (second dt))"

text \<open>\<open>starts_with xs v\<close>: the list \<open>xs\<close> has the first element \<open>v\<close>.\<close>

definition starts_with :: "'a list \<Rightarrow> 'a \<Rightarrow> bool" where
  "starts_with xs v = (\<exists>rest. xs = v # rest)"

text \<open>Whether a name holds the two characters \<open>_p\<close> in a row.\<close>

fun contains_underscore_p :: "string \<Rightarrow> bool" where
  "contains_underscore_p [] = False"
| "contains_underscore_p [a] = False"
| "contains_underscore_p (a # b # r) =
     ((a = CHR ''_'' \<and> b = CHR ''p'') \<or> contains_underscore_p (b # r))"

section \<open>Sample inputs\<close>

text \<open>
  A table of schema \<open>public\<close> with a policy, and a session on a server that holds one
  partitioned table of that schema: the parent and the given partitions. A relation is
  there until a \<^verbatim>\<open>DROP TABLE\<close> that the server accepted names it or, for a partition,
  its parent; \<open>accepted\<close> lists the statements of a history that were not refused. The
  clock stands at 2023-01-01T12:00:00 UTC.
\<close>

fun accepted ::
  "(statement list \<Rightarrow> statement \<Rightarrow> bool) \<Rightarrow> statement list \<Rightarrow> statement list \<Rightarrow> statement list" where
  "accepted rej before [] = []"
| "accepted rej before (s # rest) =
     (if rej before s then [] else [s]) @ accepted rej (before @ [s]) rest"

definition present ::
  "(statement list \<Rightarrow> statement \<Rightarrow> bool) \<Rightarrow> string \<Rightarrow> string list \<Rightarrow> statement list \<Rightarrow> string \<Rightarrow> bool" where
  "present rej parent partitions history n =
     (let done = accepted rej [] history
      in DropTableIfExists ''public'' parent \<notin> set done \<and>
         (n = parent \<or> (n \<in> set partitions \<and> DropTableIfExists ''public'' n \<notin> set done)))"

definition time_policy :: "int \<Rightarrow> DataRetentionPolicy" where
  "time_policy secs =
     \<lparr>timeretention = Some \<lparr>dt_target_column = ''mtime'', retention_seconds = secs\<rparr>,
      conditions = None\<rparr>"

definition ambiguous_policy :: DataRetentionPolicy where
  "ambiguous_policy =
     \<lparr>timeretention = Some \<lparr>dt_target_column = ''mtime'', retention_seconds = 15\<rparr>,
      conditions =
        Some [\<lparr>cond_column = ''status'', cond_operator = ''='', cond_value = ''old''\<rparr>]\<rparr>"

definition missing_policy :: DataRetentionPolicy where
  "missing_policy = \<lparr>timeretention = None, conditions = None\<rparr>"

definition table_with :: "string \<Rightarrow> DataRetentionPolicy \<Rightarrow> PostgresTableModel" where
  "table_with tn P = \<lparr>table_name = tn, schema = ''public'', retention_policy = Some P\<rparr>"

definition noon_2023 :: int where
  "noon_2023 =
     utc_micros \<lparr>year = 2023, month = 1, day = 1, hour = 12, minute = 0, second = 0,
                 microsecond = 0\<rparr>"

definition example_env_rejecting ::
  "string \<Rightarrow> string list \<Rightarrow> int \<Rightarrow> (statement list \<Rightarrow> statement \<Rightarrow> bool) \<Rightarrow> env" where
  "example_env_rejecting parent partitions offset rej =
     \<lparr>exists_answer =
        (\<lambda>history tn sn. sn = ''public'' \<and> present rej parent partitions history tn),
      partitions_answer =
        (\<lambda>history q.
           if q = SelectPartitions parent ''public'' \<or> q = SelectPartitionsByName parent
           then filter (present rej parent partitions history) partitions
           else []),
      rejects = rej,
      issued = [],
      utc_clock = (\<lambda>n. noon_2023),
      clock_reads = 0,
      local_utcoffset = offset,
      re_other = (\<lambda>tn n. Inl ReError),
      db_reachable = True\<rparr>"

text \<open>The same server when it refuses nothing.\<close>

definition example_env :: "string \<Rightarrow> string list \<Rightarrow> int \<Rightarrow> env" where
  "example_env parent partitions offset =
     example_env_rejecting parent partitions offset (\<lambda>history s. False)"

definition api_config :: "string \<Rightarrow> ApiDataRetentionPolicy \<Rightarrow> ApiTableConfig" where
  "api_config tn P =
     \<lparr>api_table_name = tn, api_schema_name = ''public'', api_retention_policy = P\<rparr>"

definition api_time_policy :: "int \<Rightarrow> ApiDataRetentionPolicy" where
  "api_time_policy secs =
     \<lparr>api_timeretention = Some \<lparr>api_dt_target_column = ''mtime'', api_retention_seconds = secs\<rparr>,
      api_conditions = None\<rparr>"

definition api_missing_policy :: ApiDataRetentionPolicy where
  "api_missing_policy = \<lparr>api_timeretention = None, api_conditions = None\<rparr>"

text \<open>
  A request of four entries for the coordinator: a table with old and new partitions,
  a table that does not exist, a policy with neither variant, and a retention too long
  for \<^verbatim>\<open>timedelta\<close>.
\<close>

definition sample_batch :: "ApiTableConfig list" where
  "sample_batch =
     [api_config ''events'' (api_time_policy 15),
      api_config ''ghost'' (api_time_policy 15),
      api_config ''events'' api_missing_policy,
      api_config ''events'' (api_time_policy 1000000000000000)]"

definition sample_env :: env where
  "sample_env = example_env ''events'' [''events_p20230101_000000'', ''events_p99990101_000000''] 0"

section \<open>Policy validation\<close>

text \<open>
  Claim C5. Validation of a policy succeeds exactly when one of its two variants is
  non-empty; with neither it fails with the "must be provided" error, with both it
  fails with the "only one" error.
\<close>

theorem DataRetentionPolicy_validate_exactly_one:
  "(DataRetentionPolicy_validate P = Inr True \<longleftrightarrow> nonempty_variants P = 1) \<and>
   (nonempty_variants P = 0 \<longrightarrow> DataRetentionPolicy_validate P =
      Inl (ValueError ''Either timeretention or conditions must be provided'')) \<and>
   (nonempty_variants P = 2 \<longrightarrow> DataRetentionPolicy_validate P =
      Inl (ValueError ''Only one of timeretention or conditions can be provided''))"
  by (cases "timeretention P"; cases "conditions P")
     (auto simp: DataRetentionPolicy_validate_def nonempty_variants_def
        truthy_obj_def truthy_list_def)

theorem DataRetentionPolicy_validate_exactly_one_witness:
  "nonempty_variants \<lparr>timeretention = None, conditions = None\<rparr> = 0 \<and>
   DataRetentionPolicy_validate \<lparr>timeretention = None, conditions = None\<rparr> =
     Inl (ValueError ''Either timeretention or conditions must be provided'') \<and>
   nonempty_variants \<lparr>timeretention = Some \<lparr>dt_target_column = ''mtime'', retention_seconds = 15\<rparr>,
     conditions = Some [\<lparr>cond_column = ''status'', cond_operator = ''='', cond_value = ''old''\<rparr>]\<rparr> = 2 \<and>
   DataRetentionPolicy_validate \<lparr>timeretention = Some \<lparr>dt_target_column = ''mtime'', retention_seconds = 15\<rparr>,
     conditions = Some [\<lparr>cond_column = ''status'', cond_operator = ''='', cond_value = ''old''\<rparr>]\<rparr> =
     Inl (ValueError ''Only one of timeretention or conditions can be provided'') \<and>
   nonempty_variants \<lparr>timeretention = Some \<lparr>dt_target_column = ''mtime'', retention_seconds = 15\<rparr>,
     conditions = None\<rparr> = 1 \<and>
   DataRetentionPolicy_validate \<lparr>timeretention = Some \<lparr>dt_target_column = ''mtime'', retention_seconds = 15\<rparr>,
     conditions = None\<rparr> = Inr True"
  using DataRetentionPolicy_validate_exactly_one
          [of "\<lparr>timeretention = None, conditions = None\<rparr>"]
        DataRetentionPolicy_validate_exactly_one
          [of "\<lparr>timeretention = Some \<lparr>dt_target_column = ''mtime'', retention_seconds = 15\<rparr>,
               conditions = Some [\<lparr>cond_column = ''status'', cond_operator = ''='', cond_value = ''old''\<rparr>]\<rparr>"]
        DataRetentionPolicy_validate_exactly_one
          [of "\<lparr>timeretention = Some \<lparr>dt_target_column = ''mtime'', retention_seconds = 15\<rparr>,
               conditions = None\<rparr>"]
  by (simp add: nonempty_variants_def)

section \<open>Statements issued by validation\<close>

lemma issued_issue [simp]: "issued (snd (issue s w)) = issued w @ [s]"
  by (simp add: issue_def)

lemma select_exists_issued:
  "issued (snd (select_exists tn sn w)) = issued w @ [SelectExists tn sn]"
  by (simp add: select_exists_def issue_def split: bool.splits)

lemma validate_malformed:
  "nonempty_variants P \<noteq> 1 \<Longrightarrow> \<exists>m. DataRetentionPolicy_validate P = Inl (ValueError m)"
  by (cases "timeretention P"; cases "conditions P")
     (auto simp: DataRetentionPolicy_validate_def nonempty_variants_def
        truthy_obj_def truthy_list_def split: if_splits)

lemma srv_validate_issued:
  "issued (snd (srv_validate t w)) = issued w @ [SelectExists (table_name t) (schema t)]"
  using select_exists_issued [of "table_name t" "schema t" w]
  by (auto simp: srv_validate_def split: prod.splits sum.splits option.splits)

lemma cli_validate_issued:
  "issued (snd (cli_validate t w)) = issued w @ [SelectExists (table_name t) (schema t)]"
  using select_exists_issued [of "table_name t" "schema t" w]
  by (auto simp: cli_validate_def Let_def split: prod.splits sum.splits option.splits)

lemma srv_validate_malformed:
  assumes "retention_policy t = Some P" "nonempty_variants P \<noteq> 1"
  shows "\<exists>e. fst (srv_validate t w) = Inl e"
  using validate_malformed [OF assms(2)] assms(1)
  by (auto simp: srv_validate_def split: prod.splits sum.splits option.splits)

lemma cli_validate_malformed:
  assumes "retention_policy t = Some P" "nonempty_variants P \<noteq> 1"
  shows "\<exists>e. fst (cli_validate t w) = Inl e"
  using validate_malformed [OF assms(2)] assms(1)
  by (auto simp: cli_validate_def Let_def split: prod.splits sum.splits option.splits)

lemma status_error_detail [simp]: "status (error_detail cfg e) = ''error''"
  by (cases e) (simp_all add: error_detail_def detail_def)

lemma process_malformed:
  assumes "retention_policy (to_domain cfg) = Some P" "nonempty_variants P \<noteq> 1"
  shows "status (fst (process_table_config cfg w)) = ''error'' \<and>
         issued (snd (process_table_config cfg w)) =
           issued w @ [SelectExists (api_table_name cfg) (api_schema_name cfg)]"
proof -
  obtain e where e: "fst (srv_validate (to_domain cfg) w) = Inl e"
    using srv_validate_malformed [OF assms] by blast
  have i: "issued (snd (srv_validate (to_domain cfg) w)) =
             issued w @ [SelectExists (table_name (to_domain cfg)) (schema (to_domain cfg))]"
    by (rule srv_validate_issued)
  have n: "table_name (to_domain cfg) = api_table_name cfg" "schema (to_domain cfg) = api_schema_name cfg"
    by (simp_all add: to_domain_def Let_def)
  obtain w1 where v: "srv_validate (to_domain cfg) w = (Inl e, w1)"
    using e by (cases "srv_validate (to_domain cfg) w") auto
  show ?thesis using v i n
    by (simp add: process_table_config_def Let_def)
qed


lemma res_names_detail [simp]:
  "res_table_name (detail cfg st msg) = api_table_name cfg"
  "res_schema_name (detail cfg st msg) = api_schema_name cfg"
  by (simp_all add: detail_def)

lemma res_names_error_detail [simp]:
  "res_table_name (error_detail cfg e) = api_table_name cfg"
  "res_schema_name (error_detail cfg e) = api_schema_name cfg"
  by (cases e; simp add: error_detail_def)+

lemma process_table_config_names:
  "res_table_name (fst (process_table_config cfg w)) = api_table_name cfg \<and>
   res_schema_name (fst (process_table_config cfg w)) = api_schema_name cfg"
  by (simp add: process_table_config_def Let_def
        split: prod.splits sum.splits bool.splits)

lemma truthy_to_domain [simp]: "truthy_obj (retention_policy (to_domain cfg))"
  by (simp add: to_domain_def Let_def truthy_obj_def)

lemma process_table_config_raised:
  "fst (srv_validate (to_domain cfg) w) = Inl e \<Longrightarrow>
     status (fst (process_table_config cfg w)) = ''error''"
  "fst (srv_validate (to_domain cfg) w) = Inr True \<Longrightarrow>
   fst (srv_prune (to_domain cfg) (snd (srv_validate (to_domain cfg) w))) = Inl e \<Longrightarrow>
     status (fst (process_table_config cfg w)) = ''error''"
proof -
  assume "fst (srv_validate (to_domain cfg) w) = Inl e"
  then obtain w1 where "srv_validate (to_domain cfg) w = (Inl e, w1)"
    by (cases "srv_validate (to_domain cfg) w") auto
  then show "status (fst (process_table_config cfg w)) = ''error''"
    by (simp add: process_table_config_def Let_def)
next
  assume "fst (srv_validate (to_domain cfg) w) = Inr True"
  then obtain w1 where v: "srv_validate (to_domain cfg) w = (Inr True, w1)"
    by (cases "srv_validate (to_domain cfg) w") auto
  assume "fst (srv_prune (to_domain cfg) (snd (srv_validate (to_domain cfg) w))) = Inl e"
  then obtain w2 where "srv_prune (to_domain cfg) w1 = (Inl e, w2)"
    using v by (cases "srv_prune (to_domain cfg) w1") auto
  then show "status (fst (process_table_config cfg w)) = ''error''"
    using v by (simp add: process_table_config_def Let_def)
qed

lemma prune_loop_acc:
  "prune_loop cfgs acc w = (acc @ fst (prune_loop cfgs [] w), snd (prune_loop cfgs [] w))"
proof (induction cfgs arbitrary: acc w)
  case Nil
  show ?case by simp
next
  case (Cons cfg cfgs)
  obtain r w1 where p: "process_table_config cfg w = (r, w1)"
    by (cases "process_table_config cfg w")
  show ?case
    using Cons.IH [of "acc @ [r]" w1] Cons.IH [of "[r]" w1] p by simp
qed

lemma prune_loop_Cons:
  "fst (prune_loop (cfg # cfgs) [] w) =
     fst (process_table_config cfg w) #
     fst (prune_loop cfgs [] (snd (process_table_config cfg w)))"
  using prune_loop_acc [of cfgs "[fst (process_table_config cfg w)]" "snd (process_table_config cfg w)"]
  by (simp add: case_prod_beta)

lemma prune_loop_snd_Cons:
  "snd (prune_loop (cfg # cfgs) [] w) =
     snd (prune_loop cfgs [] (snd (process_table_config cfg w)))"
  using prune_loop_acc [of cfgs "[fst (process_table_config cfg w)]" "snd (process_table_config cfg w)"]
  by (simp add: case_prod_beta)

lemma prune_loop_length: "length (fst (prune_loop cfgs [] w)) = length cfgs"
  by (induction cfgs arbitrary: w) (simp_all add: prune_loop_Cons del: prune_loop.simps(2))

lemma prune_loop_names:
  "map (\<lambda>r. (res_table_name r, res_schema_name r)) (fst (prune_loop cfgs [] w)) =
   map (\<lambda>c. (api_table_name c, api_schema_name c)) cfgs"
  by (induction cfgs arbitrary: w)
     (simp_all add: prune_loop_Cons process_table_config_names del: prune_loop.simps(2))

lemma prune_loop_snd_append:
  "snd (prune_loop (xs @ ys) [] w) = snd (prune_loop ys [] (snd (prune_loop xs [] w)))"
  by (induction xs arbitrary: w) (simp_all add: prune_loop_snd_Cons del: prune_loop.simps(2))

lemma prune_loop_nth:
  "k < length cfgs \<Longrightarrow>
   fst (prune_loop cfgs [] w) ! k =
     fst (process_table_config (cfgs ! k) (snd (prune_loop (take k cfgs) [] w)))"
proof (induction cfgs arbitrary: w k)
  case Nil
  then show ?case by simp
next
  case (Cons cfg cfgs)
  show ?case
  proof (cases k)
    case 0
    then show ?thesis by (simp add: prune_loop_Cons del: prune_loop.simps(2))
  next
    case (Suc j)
    then have "j < length cfgs" using Cons.prems by simp
    from Cons.IH [OF this, of "snd (process_table_config cfg w)"] Suc
    show ?thesis by (simp add: prune_loop_Cons prune_loop_snd_Cons del: prune_loop.simps(2))
  qed
qed

text \<open>
  Claim C6. Policy-shape validation is a pure function that runs before any database
  access of the per-table pass, so that a malformed policy fails the pass with no
  query issued. In both files \<^verbatim>\<open>PostgresTableModel.validate\<close> sends the
  existence query first and checks the policy afterwards. What holds: the check itself
  takes no session (\<open>DataRetentionPolicy_validate\<close> has no \<open>env\<close>), and for a malformed
  policy the pass fails after exactly one statement, the existence query, and before
  any partition is listed or dropped.
\<close>

theorem malformed_policy_fails_after_existence_query:
  assumes "retention_policy t = Some P" and "nonempty_variants P \<noteq> 1"
  shows "(\<exists>e. fst (srv_validate t w) = Inl e) \<and>
         issued (snd (srv_validate t w)) = issued w @ [SelectExists (table_name t) (schema t)] \<and>
         (\<exists>e. fst (cli_validate t w) = Inl e) \<and>
         issued (snd (cli_validate t w)) = issued w @ [SelectExists (table_name t) (schema t)] \<and>
         (\<forall>cfg. to_domain cfg = t \<longrightarrow>
            status (fst (process_table_config cfg w)) = ''error'' \<and>
            issued (snd (process_table_config cfg w)) =
              issued w @ [SelectExists (table_name t) (schema t)])"
proof -
  have "status (fst (process_table_config cfg w)) = ''error'' \<and>
        issued (snd (process_table_config cfg w)) =
          issued w @ [SelectExists (table_name t) (schema t)]"
    if "to_domain cfg = t" for cfg
  proof -
    have "retention_policy (to_domain cfg) = Some P" using that assms(1) by simp
    from process_malformed [OF this assms(2), of w] that show ?thesis
      by (auto simp: to_domain_def Let_def)
  qed
  then show ?thesis
    using srv_validate_malformed [OF assms] cli_validate_malformed [OF assms]
      srv_validate_issued [of t w] cli_validate_issued [of t w]
    by blast
qed

theorem malformed_policy_fails_after_existence_query_witness:
  "retention_policy (table_with ''events'' missing_policy) = Some missing_policy \<and>
   nonempty_variants missing_policy \<noteq> 1 \<and>
   to_domain (api_config ''events'' api_missing_policy) = table_with ''events'' missing_policy \<and>
   status (fst (process_table_config (api_config ''events'' api_missing_policy)
                  (example_env ''events'' [] 0))) = ''error'' \<and>
   issued (snd (process_table_config (api_config ''events'' api_missing_policy)
                  (example_env ''events'' [] 0))) = [SelectExists ''events'' ''public''] \<and>
   issued (snd (srv_validate (table_with ''events'' missing_policy) (example_env ''events'' [] 0))) =
     [SelectExists ''events'' ''public'']"
proof -
  have h1: "retention_policy (table_with ''events'' missing_policy) = Some missing_policy"
    by (simp add: table_with_def)
  have h2: "nonempty_variants missing_policy \<noteq> 1"
    by (simp add: nonempty_variants_def missing_policy_def)
  have h3: "to_domain (api_config ''events'' api_missing_policy) =
              table_with ''events'' missing_policy"
    by (simp add: to_domain_def api_config_def api_missing_policy_def table_with_def
          missing_policy_def truthy_list_def)
  have i: "issued (example_env ''events'' [] 0) = []"
    by (simp add: example_env_def example_env_rejecting_def)
  have n: "table_name (table_with ''events'' missing_policy) = ''events''"
          "schema (table_with ''events'' missing_policy) = ''public''"
    by (simp_all add: table_with_def)
  from malformed_policy_fails_after_existence_query
         [OF h1 h2, of "example_env ''events'' [] 0"] h1 h2 h3 i n
  show ?thesis by simp
qed

theorem validate_queries_before_policy_check:
  "nonempty_variants ambiguous_policy = 2 \<and>
   issued (example_env ''events'' [] 0) = [] \<and>
   srv_validate (table_with ''events'' ambiguous_policy) (example_env ''events'' [] 0) =
     (Inl (ValueError ''Only one of timeretention or conditions can be provided''),
      (example_env ''events'' [] 0)\<lparr>issued := [SelectExists ''events'' ''public'']\<rparr>) \<and>
   cli_validate (table_with ''events'' ambiguous_policy) (example_env ''events'' [] 0) =
     (Inl (ValueError ''Only one of timeretention or conditions can be provided''),
      (example_env ''events'' [] 0)\<lparr>issued := [SelectExists ''events'' ''public'']\<rparr>)"
  by (simp add: nonempty_variants_def ambiguous_policy_def example_env_def example_env_rejecting_def table_with_def
        srv_validate_def cli_validate_def select_exists_def issue_def
        DataRetentionPolicy_validate_def truthy_obj_def truthy_list_def)

section \<open>The service's pass\<close>

text \<open>
  Facts about \<^verbatim>\<open>src/apps/prune_server/models.py\<close> for every table, session and
  clock: which errors leave the loop and which statements it issues.
\<close>

lemma make_datetime_error: "make_datetime y m d H M S = Inl e \<Longrightarrow> \<exists>msg. e = ValueError msg"
  by (auto simp: make_datetime_def split: if_splits)

lemma strptime_error: "strptime fmt s = Inl e \<Longrightarrow> \<exists>msg. e = ValueError msg"
proof (cases "parse_format fmt s")
  case Nil
  assume "strptime fmt s = Inl e"
  with Nil show ?thesis by (auto simp: strptime_def)
next
  case (Cons a rest)
  assume e: "strptime fmt s = Inl e"
  obtain vs r where a: "a = (vs, r)" by (cases a)
  show ?thesis
  proof (cases "r = []")
    case True
    with e Cons a show ?thesis
      by (simp add: strptime_def Let_def) (erule make_datetime_error)
  next
    case False
    with e Cons a show ?thesis by (auto simp: strptime_def)
  qed
qed

lemma srv_partition_datetime_error:
  "srv_partition_datetime n = Inl e \<Longrightarrow> caught_index_or_value e"
  by (auto simp: srv_partition_datetime_def index_at_def index_from_end_def
        caught_index_or_value_def
        split: sum.splits if_splits dest!: strptime_error)

lemma days_before_year_nonneg: "1 \<le> y \<Longrightarrow> 0 \<le> days_before_year y"
proof -
  assume y: "1 \<le> y"
  then have "(y - 1) div 100 \<le> (y - 1) div 4" by (intro zdiv_mono2) simp_all
  moreover have "0 \<le> (y - 1) div 400" "0 \<le> (y - 1) * 365" using y by simp_all
  ultimately show ?thesis unfolding days_before_year_def by linarith
qed

lemma days_in_month_nonneg: "0 \<le> days_in_month y m"
  by (simp add: days_in_month_def)

lemma days_before_month_nonneg: "0 \<le> days_before_month y m"
  unfolding days_before_month_def
  by (rule sum_list_nonneg) (auto simp: days_in_month_nonneg)

lemma make_datetime_nonneg:
  assumes "make_datetime y m d H M S = Inr dt"
  shows "0 \<le> utc_micros dt"
proof -
  from assms have r: "1 \<le> y" "1 \<le> d" "0 \<le> H" "0 \<le> M" "0 \<le> S"
    and dt: "dt = \<lparr>year = y, month = m, day = d, hour = H, minute = M, second = S, microsecond = 0\<rparr>"
    by (auto simp: make_datetime_def split: if_splits)
  have "0 \<le> ymd2ord y m d - 1"
    using days_before_year_nonneg [OF r(1)] days_before_month_nonneg [of y m] r(2)
    by (simp add: ymd2ord_def)
  then have "0 \<le> (ymd2ord y m d - 1) * 86400 + H * 3600 + M * 60 + S"
    using r by simp
  then show ?thesis by (simp add: utc_micros_def dt)
qed

lemma strptime_nonneg:
  assumes "strptime fmt s = Inr dt"
  shows "0 \<le> utc_micros dt"
proof (cases "parse_format fmt s")
  case Nil
  with assms show ?thesis by (simp add: strptime_def)
next
  case (Cons a rest)
  obtain vs r where a: "a = (vs, r)" by (cases a)
  show ?thesis
  proof (cases "r = []")
    case True
    with assms Cons a show ?thesis
      by (simp add: strptime_def Let_def) (erule make_datetime_nonneg)
  next
    case False
    with assms Cons a show ?thesis by (simp add: strptime_def)
  qed
qed

lemma srv_partition_datetime_nonneg:
  "srv_partition_datetime n = Inr dt \<Longrightarrow> 0 \<le> utc_micros dt"
  by (auto simp: srv_partition_datetime_def split: sum.splits dest: strptime_nonneg)

lemma srv_partition_step_no_match:
  "re_match w (table_name t) n = Inr False \<Longrightarrow> srv_partition_step t d n w = (Inr (), w)"
  by (simp add: srv_partition_step_def)

lemma srv_partition_step_undecodable:
  "re_match w (table_name t) n = Inr True \<Longrightarrow> srv_partition_datetime n = Inl e \<Longrightarrow>
   srv_partition_step t d n w = (Inr (), w)"
  using srv_partition_datetime_error [of n e]
  by (simp add: srv_partition_step_def)

lemma issued_drop:
  "issued (snd (drop_table_if_exists sn n w)) = issued w @ [DropTableIfExists sn n]"
  by (simp add: drop_table_if_exists_def issue_def split: bool.splits)

lemma srv_partition_step_drops_iff:
  assumes m: "re_match w (table_name t) n = Inr True"
    and p: "srv_partition_datetime n = Inr pdt"
    and d: "0 \<le> d"
    and c: "0 \<le> utc_clock w (clock_reads w)" "utc_clock w (clock_reads w) \<le> max_micros"
  shows "issued (snd (srv_partition_step t d n w)) =
           issued w @ (if utc_micros pdt < utc_clock w (clock_reads w) - d * 1000000
                       then [DropTableIfExists (schema t) n] else [])"
proof -
  let ?now = "utc_clock w (clock_reads w)"
  have nn: "0 \<le> utc_micros pdt" using p by (rule srv_partition_datetime_nonneg)
  show ?thesis
  proof (cases "timedelta_seconds d")
    case (Inl e)
    then have "999999999 < d div 86400"
      using d by (auto simp: timedelta_seconds_def split: if_splits)
    then have "?now - d * 1000000 < 0"
      using c(2) by (simp add: max_micros_def)
    then show ?thesis using Inl m p nn by (simp add: srv_partition_step_def)
  next
    case (Inr delta)
    then have delta: "delta = d" by (auto simp: timedelta_seconds_def split: if_splits)
    show ?thesis
    proof (cases "datetime_sub ?now d")
      case (Inl e)
      then have "?now - d * 1000000 < 0"
        using c d by (auto simp: datetime_sub_def Let_def split: if_splits)
      then show ?thesis
        using Inl Inr delta m p nn by (simp add: srv_partition_step_def now_utc_def)
    next
      case cut: (Inr cutoff)
      then have cutoff: "cutoff = ?now - d * 1000000"
        by (auto simp: datetime_sub_def Let_def split: if_splits)
      let ?w1 = "w\<lparr>clock_reads := Suc (clock_reads w)\<rparr>"
      obtain r w2 where dr: "drop_table_if_exists (schema t) n ?w1 = (r, w2)"
        by (cases "drop_table_if_exists (schema t) n ?w1")
      have i: "issued w2 = issued w @ [DropTableIfExists (schema t) n]"
        using issued_drop [of "schema t" n ?w1] dr by simp
      show ?thesis
      proof (cases "utc_micros pdt < cutoff")
        case True
        then have "srv_partition_step t d n w = (Inr (), w2)"
          using Inr delta cut m p dr
          by (cases r) (simp_all add: srv_partition_step_def now_utc_def)
        then show ?thesis using i True cutoff by simp
      next
        case False
        then have "srv_partition_step t d n w = (Inr (), ?w1)"
          using Inr delta cut m p
          by (simp add: srv_partition_step_def now_utc_def)
        then show ?thesis using False cutoff by simp
      qed
    qed
  qed
qed

lemma drop_table_env:
  "re_other (snd (drop_table_if_exists sn n w)) = re_other w"
  "utc_clock (snd (drop_table_if_exists sn n w)) = utc_clock w"
  "rejects (snd (drop_table_if_exists sn n w)) = rejects w"
  by (auto simp: drop_table_if_exists_def issue_def split: bool.splits)

lemma re_match_cong: "re_other w' = re_other w \<Longrightarrow> re_match w' tn n = re_match w tn n"
  by (simp add: re_match_def split: option.splits)

text \<open>What one turn of the service's loop can do.\<close>

lemma srv_partition_step_cases:
  obtains (skip) "snd (srv_partition_step t d n w) = w"
      "fst (srv_partition_step t d n w) = Inr () \<or>
       fst (srv_partition_step t d n w) = Inl OverflowError \<or>
       (\<exists>e. fst (srv_partition_step t d n w) = Inl e \<and> re_match w (table_name t) n = Inl e)"
  | (tick) "snd (srv_partition_step t d n w) = w\<lparr>clock_reads := Suc (clock_reads w)\<rparr>"
      "fst (srv_partition_step t d n w) = Inr () \<or>
       fst (srv_partition_step t d n w) = Inl OverflowError"
  | (drop) pdt where "re_match w (table_name t) n = Inr True"
      "srv_partition_datetime n = Inr pdt"
      "utc_micros pdt < utc_clock w (clock_reads w) - d * 1000000"
      "fst (srv_partition_step t d n w) = Inr ()"
      "snd (srv_partition_step t d n w) =
         snd (drop_table_if_exists (schema t) n (w\<lparr>clock_reads := Suc (clock_reads w)\<rparr>))"
proof (cases "re_match w (table_name t) n")
  case (Inl e)
  then show ?thesis using skip by (simp add: srv_partition_step_def)
next
  case m: (Inr b)
  show ?thesis
  proof (cases b)
    case False
    with m show ?thesis using skip by (simp add: srv_partition_step_def)
  next
    case True
    show ?thesis
    proof (cases "srv_partition_datetime n")
      case (Inl e)
      with m True show ?thesis using skip srv_partition_datetime_error [of n e]
        by (simp add: srv_partition_step_def)
    next
      case p: (Inr pdt)
      show ?thesis
      proof (cases "timedelta_seconds d")
        case (Inl e)
        then have "e = OverflowError" by (auto simp: timedelta_seconds_def split: if_splits)
        with Inl m True p show ?thesis using skip by (simp add: srv_partition_step_def)
      next
        case td: (Inr delta)
        then have delta: "delta = d" by (auto simp: timedelta_seconds_def split: if_splits)
        show ?thesis
        proof (cases "datetime_sub (utc_clock w (clock_reads w)) d")
          case (Inl e)
          then have "e = OverflowError"
            by (auto simp: datetime_sub_def Let_def split: if_splits)
          with Inl m True p td delta show ?thesis using tick
            by (simp add: srv_partition_step_def now_utc_def)
        next
          case cut: (Inr cutoff)
          then have cutoff: "cutoff = utc_clock w (clock_reads w) - d * 1000000"
            by (auto simp: datetime_sub_def Let_def split: if_splits)
          show ?thesis
          proof (cases "utc_micros pdt < cutoff")
            case False
            with m True p td delta cut show ?thesis using tick
              by (simp add: srv_partition_step_def now_utc_def)
          next
            case lt: True
            let ?w1 = "w\<lparr>clock_reads := Suc (clock_reads w)\<rparr>"
            obtain r w2 where dr: "drop_table_if_exists (schema t) n ?w1 = (r, w2)"
              by (cases "drop_table_if_exists (schema t) n ?w1")
            have "srv_partition_step t d n w = (Inr (), w2)"
              using m True p td delta cut lt dr
              by (cases r) (simp_all add: srv_partition_step_def now_utc_def)
            then show ?thesis
              using drop [of pdt] m True p lt cutoff dr by simp
          qed
        qed
      qed
    qed
  qed
qed

lemma srv_partition_step_env:
  "re_other (snd (srv_partition_step t d n w)) = re_other w \<and>
   utc_clock (snd (srv_partition_step t d n w)) = utc_clock w \<and>
   rejects (snd (srv_partition_step t d n w)) = rejects w"
proof (cases rule: srv_partition_step_cases [where t = t and d = d and n = n and w = w])
  case skip
  then show ?thesis by simp
next
  case tick
  then show ?thesis by simp
next
  case (drop pdt)
  let ?w1 = "w\<lparr>clock_reads := Suc (clock_reads w)\<rparr>"
  show ?thesis
    using drop(5) drop_table_env(1,2,3) [of "schema t" n ?w1] by simp
qed

lemma eligible_at_cong:
  "re_other w' = re_other w \<Longrightarrow> utc_clock w' = utc_clock w \<Longrightarrow>
   eligible_at w' t d n k = eligible_at w t d n k"
  using re_match_cong [of w' w "table_name t" n]
  by (simp add: eligible_at_def split: sum.splits)

lemma srv_partition_step_issued:
  assumes "x \<in> set (issued (snd (srv_partition_step t d n w)))"
  shows "x \<in> set (issued w) \<or>
         (x = DropTableIfExists (schema t) n \<and> (\<exists>k. eligible_at w t d n k))"
proof (cases rule: srv_partition_step_cases [where t = t and d = d and n = n and w = w])
  case skip
  with assms show ?thesis by simp
next
  case tick
  with assms show ?thesis by simp
next
  case (drop pdt)
  have e: "eligible_at w t d n (clock_reads w)"
    using drop(1,2,3) by (simp add: eligible_at_def)
  have "issued (snd (srv_partition_step t d n w)) = issued w @ [DropTableIfExists (schema t) n]"
    unfolding drop(5) issued_drop by simp
  with assms have "x \<in> set (issued w) \<or> x = DropTableIfExists (schema t) n" by auto
  with e show ?thesis by blast
qed

lemma srv_partition_loop_Cons:
  "srv_partition_step t d n w = (Inr u, w1) \<Longrightarrow>
     srv_partition_loop t d (n # ns) w = srv_partition_loop t d ns w1"
  "srv_partition_step t d n w = (Inl e, w1) \<Longrightarrow>
     srv_partition_loop t d (n # ns) w = (Inl e, w1)"
  by simp_all

lemma srv_partition_loop_env:
  "re_other (snd (srv_partition_loop t d ns w)) = re_other w \<and>
   utc_clock (snd (srv_partition_loop t d ns w)) = utc_clock w \<and>
   rejects (snd (srv_partition_loop t d ns w)) = rejects w"
proof (induction ns arbitrary: w)
  case Nil
  show ?case by simp
next
  case (Cons n ns)
  obtain r w1 where s: "srv_partition_step t d n w = (r, w1)"
    by (cases "srv_partition_step t d n w")
  have env: "re_other w1 = re_other w" "utc_clock w1 = utc_clock w" "rejects w1 = rejects w"
    using srv_partition_step_env [of t d n w] s by simp_all
  show ?case
  proof (cases r)
    case (Inl e)
    show ?thesis
      unfolding srv_partition_loop_Cons(2) [OF s [unfolded Inl]] using env by simp
  next
    case (Inr u)
    show ?thesis
      unfolding srv_partition_loop_Cons(1) [OF s [unfolded Inr]]
      using Cons.IH [of w1] env by simp
  qed
qed

lemma srv_partition_loop_issued:
  "x \<in> set (issued (snd (srv_partition_loop t d ns w))) \<Longrightarrow>
   x \<in> set (issued w) \<or>
   (\<exists>n \<in> set ns. x = DropTableIfExists (schema t) n \<and> (\<exists>k. eligible_at w t d n k))"
proof (induction ns arbitrary: w)
  case Nil
  then show ?case by simp
next
  case (Cons n ns)
  obtain r w1 where s: "srv_partition_step t d n w = (r, w1)"
    by (cases "srv_partition_step t d n w")
  have env: "re_other w1 = re_other w" "utc_clock w1 = utc_clock w"
    using srv_partition_step_env [of t d n w] s by simp_all
  have el: "eligible_at w1 t d m k = eligible_at w t d m k" for m k
    using env(1,2) by (rule eligible_at_cong)
  have st: "y \<in> set (issued w1) \<Longrightarrow> y \<in> set (issued w) \<or>
         (y = DropTableIfExists (schema t) n \<and> (\<exists>k. eligible_at w t d n k))" for y
    using srv_partition_step_issued [of y t d n w] s by simp
  show ?case
  proof (cases r)
    case (Inl e)
    from Cons.prems have "x \<in> set (issued w1)"
      unfolding srv_partition_loop_Cons(2) [OF s [unfolded Inl]] by simp
    from st [OF this] show ?thesis by auto
  next
    case (Inr u)
    from Cons.prems have "x \<in> set (issued (snd (srv_partition_loop t d ns w1)))"
      unfolding srv_partition_loop_Cons(1) [OF s [unfolded Inr]] .
    from Cons.IH [OF this] have "x \<in> set (issued w1) \<or>
       (\<exists>m \<in> set ns. x = DropTableIfExists (schema t) m \<and> (\<exists>k. eligible_at w t d m k))"
      unfolding el .
    then show ?thesis using st [of x] by auto
  qed
qed

lemma srv_partition_step_raises:
  assumes "fst (srv_partition_step t d n w) = Inl e"
  shows "e = OverflowError \<or> re_match w (table_name t) n = Inl e"
proof (cases rule: srv_partition_step_cases [where t = t and d = d and n = n and w = w])
  case skip
  with assms show ?thesis by auto
next
  case tick
  with assms show ?thesis by auto
next
  case (drop pdt)
  with assms show ?thesis by simp
qed

lemma srv_partition_loop_raises:
  "fst (srv_partition_loop t d ns w) = Inl e \<Longrightarrow>
     e = OverflowError \<or> (\<exists>n \<in> set ns. re_match w (table_name t) n = Inl e)"
proof (induction ns arbitrary: w)
  case Nil
  then show ?case by simp
next
  case (Cons n ns)
  obtain r w1 where s: "srv_partition_step t d n w = (r, w1)"
    by (cases "srv_partition_step t d n w")
  show ?case
  proof (cases r)
    case (Inl e')
    with s Cons.prems have "e' = e" by simp
    then show ?thesis using srv_partition_step_raises [of t d n w e] s Inl by auto
  next
    case (Inr u)
    have "re_other w1 = re_other w" using srv_partition_step_env [of t d n w] s by simp
    then have rm: "re_match w1 (table_name t) m = re_match w (table_name t) m" for m
      by (rule re_match_cong)
    from Inr s Cons.prems have "fst (srv_partition_loop t d ns w1) = Inl e" by simp
    from Cons.IH [OF this] show ?thesis unfolding rm by auto
  qed
qed

lemma select_partitions_env:
  "re_other (snd (select_partitions tn sn w)) = re_other w"
  "utc_clock (snd (select_partitions tn sn w)) = utc_clock w"
  "clock_reads (snd (select_partitions tn sn w)) = clock_reads w"
  "issued (snd (select_partitions tn sn w)) = issued w @ [SelectPartitions tn sn]"
  "fst (select_partitions tn sn w) = Inr ns \<Longrightarrow> ns = child_names w tn sn"
  "fst (select_partitions tn sn w) = Inl e \<Longrightarrow> e = DatabaseError"
  "rejects (snd (select_partitions tn sn w)) = rejects w"
  by (auto simp: select_partitions_def issue_def child_names_def split: bool.splits)

lemma commit_env:
  "rejects (snd (commit w)) = rejects w"
  "issued (snd (commit w)) = issued w @ [Commit]"
  "fst (commit w) = Inl e \<Longrightarrow> e = DatabaseError"
  by (auto simp: commit_def issue_def split: bool.splits)

lemma srv_drop_table_partitions_cases:
  assumes "retention_policy t = Some P" "timeretention P = Some tr"
  obtains (refused) "fst (select_partitions (table_name t) (schema t) w) = Inl DatabaseError"
      "srv_drop_table_partitions t w =
         (Inl DatabaseError, snd (select_partitions (table_name t) (schema t) w))"
  | (aborted) e w1 w2 where
      "select_partitions (table_name t) (schema t) w = (Inr (child_names w (table_name t) (schema t)), w1)"
      "srv_partition_loop t (retention_seconds tr) (child_names w (table_name t) (schema t)) w1 = (Inl e, w2)"
      "srv_drop_table_partitions t w = (Inl e, w2)"
  | (finished) w1 w2 where
      "select_partitions (table_name t) (schema t) w = (Inr (child_names w (table_name t) (schema t)), w1)"
      "srv_partition_loop t (retention_seconds tr) (child_names w (table_name t) (schema t)) w1 = (Inr (), w2)"
      "srv_drop_table_partitions t w = commit w2"
proof -
  obtain r w1 where sp: "select_partitions (table_name t) (schema t) w = (r, w1)"
    by (cases "select_partitions (table_name t) (schema t) w")
  show ?thesis
  proof (cases r)
    case (Inl e)
    then have "e = DatabaseError"
      using select_partitions_env(6) [of "table_name t" "schema t" w e] sp by simp
    with Inl sp show ?thesis using refused by (simp add: srv_drop_table_partitions_def)
  next
    case (Inr ns)
    then have ns: "ns = child_names w (table_name t) (schema t)"
      using select_partitions_env(5) [of "table_name t" "schema t" w ns] sp by simp
    obtain r2 w2 where lp: "srv_partition_loop t (retention_seconds tr) ns w1 = (r2, w2)"
      by (cases "srv_partition_loop t (retention_seconds tr) ns w1")
    show ?thesis
    proof (cases r2)
      case (Inl e)
      with Inr ns sp lp assms show ?thesis using aborted [of w1 e w2]
        by (simp add: srv_drop_table_partitions_def)
    next
      case r2: (Inr u)
      with Inr ns sp lp assms show ?thesis using finished [of w1 w2]
        by (simp add: srv_drop_table_partitions_def)
    qed
  qed
qed

lemma srv_prune_time:
  "retention_policy t = Some P \<Longrightarrow> timeretention P = Some tr \<Longrightarrow>
   srv_prune t w = srv_drop_table_partitions t w"
  by (simp add: srv_prune_def truthy_obj_def)

text \<open>
  Every statement the service's time-based pruning sends is the partition query, a
  commit, or a \<^verbatim>\<open>DROP TABLE\<close> for a name the server listed as a child, which the
  filter accepted, which decoded, and whose instant lies before a reading of the clock
  minus the retention. The statement addresses that name in the schema of the table,
  as the source does, whichever schema the listed child is in.
\<close>

lemma srv_prune_issued:
  assumes pol: "retention_policy t = Some P" "timeretention P = Some tr"
    and x: "x \<in> set (issued (snd (srv_prune t w)))"
  shows "x \<in> set (issued w) \<or> x = SelectPartitions (table_name t) (schema t) \<or> x = Commit \<or>
         (\<exists>n \<in> set (child_names w (table_name t) (schema t)).
            x = DropTableIfExists (schema t) n \<and>
            (\<exists>k. eligible_at w t (retention_seconds tr) n k))"
proof -
  let ?ns = "child_names w (table_name t) (schema t)"
  let ?d = "retention_seconds tr"
  note sp = select_partitions_env [of "table_name t" "schema t" w]
  have loop: "y \<in> set (issued (snd (srv_partition_loop t ?d ?ns w1))) \<Longrightarrow>
      y \<in> set (issued w) \<or> y = SelectPartitions (table_name t) (schema t) \<or>
      (\<exists>n \<in> set ?ns. y = DropTableIfExists (schema t) n \<and> (\<exists>k. eligible_at w t ?d n k))"
    if w1: "w1 = snd (select_partitions (table_name t) (schema t) w)" for y w1
  proof -
    assume "y \<in> set (issued (snd (srv_partition_loop t ?d ?ns w1)))"
    from srv_partition_loop_issued [OF this]
    have "y \<in> set (issued w1) \<or>
      (\<exists>n \<in> set ?ns. y = DropTableIfExists (schema t) n \<and> (\<exists>k. eligible_at w1 t ?d n k))" .
    moreover have "eligible_at w1 t ?d n k = eligible_at w t ?d n k" for n k
      using sp(1,2) unfolding w1 by (rule eligible_at_cong)
    moreover have "issued w1 = issued w @ [SelectPartitions (table_name t) (schema t)]"
      using sp(4) unfolding w1 .
    ultimately show ?thesis by auto
  qed
  from x have x': "x \<in> set (issued (snd (srv_drop_table_partitions t w)))"
    unfolding srv_prune_time [OF pol] .
  from pol show ?thesis
  proof (cases rule: srv_drop_table_partitions_cases [where w = w])
    case refused
    with x' sp(4) show ?thesis by auto
  next
    case (aborted e w1 w2)
    have "w1 = snd (select_partitions (table_name t) (schema t) w)" using aborted(1) by simp
    from loop [OF this, of x] x' aborted(2,3) show ?thesis by auto
  next
    case (finished w1 w2)
    have w1: "w1 = snd (select_partitions (table_name t) (schema t) w)" using finished(1) by simp
    from x' have "x \<in> set (issued w2) \<or> x = Commit"
      unfolding finished(3) commit_env by auto
    then show ?thesis using loop [OF w1, of x] finished(2) by auto
  qed
qed

lemma srv_prune_raises:
  assumes pol: "retention_policy t = Some P" "timeretention P = Some tr"
    and e: "fst (srv_prune t w) = Inl e"
  shows "e = OverflowError \<or>
         (\<exists>n \<in> set (child_names w (table_name t) (schema t)). re_match w (table_name t) n = Inl e) \<or>
         (e = DatabaseError \<and>
          (\<exists>h. rejects w h (SelectPartitions (table_name t) (schema t)) \<or> rejects w h Commit))"
proof -
  let ?ns = "child_names w (table_name t) (schema t)"
  note sp = select_partitions_env [of "table_name t" "schema t" w]
  from e have e': "fst (srv_drop_table_partitions t w) = Inl e"
    unfolding srv_prune_time [OF pol] .
  from pol show ?thesis
  proof (cases rule: srv_drop_table_partitions_cases [where w = w])
    case refused
    then have "rejects w (issued w) (SelectPartitions (table_name t) (schema t))"
      by (auto simp: select_partitions_def issue_def split: bool.splits)
    with refused e' show ?thesis by auto
  next
    case (aborted e0 w1 w2)
    have w1: "re_other w1 = re_other w" using aborted(1) sp(1) by simp
    have "fst (srv_partition_loop t (retention_seconds tr) ?ns w1) = Inl e"
      using aborted(2,3) e' by simp
    from srv_partition_loop_raises [OF this] show ?thesis
      unfolding re_match_cong [OF w1] by auto
  next
    case (finished w1 w2)
    have "fst (commit w2) = Inl e" using e' finished(3) by simp
    then have "e = DatabaseError \<and> rejects w2 (issued w2) Commit"
      by (auto simp: commit_def issue_def split: bool.splits)
    moreover have "rejects w2 = rejects w"
      using srv_partition_loop_env [of t "retention_seconds tr" ?ns w1] finished(1,2) sp(7)
      by simp
    ultimately show ?thesis by auto
  qed
qed

lemma srv_partition_loop_append:
  "srv_partition_loop t d (xs @ ys) w =
     (case srv_partition_loop t d xs w of
        (Inl e, w1) \<Rightarrow> (Inl e, w1)
      | (Inr u, w1) \<Rightarrow> srv_partition_loop t d ys w1)"
proof (induction xs arbitrary: w)
  case Nil
  show ?case by simp
next
  case (Cons x xs)
  obtain r w1 where s: "srv_partition_step t d x w = (r, w1)"
    by (cases "srv_partition_step t d x w")
  show ?case
  proof (cases r)
    case (Inl e)
    with s show ?thesis by simp
  next
    case (Inr u)
    with s Cons.IH [of w1] show ?thesis by simp
  qed
qed

lemma srv_partition_loop_skips:
  assumes "re_match w (table_name t) n = Inr False \<or>
           (re_match w (table_name t) n = Inr True \<and> (\<exists>e. srv_partition_datetime n = Inl e))"
  shows "srv_partition_loop t d (xs @ n # ys) w = srv_partition_loop t d (xs @ ys) w"
proof -
  obtain r w1 where l: "srv_partition_loop t d xs w = (r, w1)"
    by (cases "srv_partition_loop t d xs w")
  have "re_other w1 = re_other w" using srv_partition_loop_env [of t d xs w] l by simp
  then have "re_match w1 (table_name t) n = re_match w (table_name t) n"
    by (rule re_match_cong)
  with assms have "srv_partition_step t d n w1 = (Inr (), w1)"
    using srv_partition_step_no_match [of w1 t n d] srv_partition_step_undecodable [of w1 t n _ d]
    by auto
  then have "srv_partition_loop t d (n # ys) w1 = srv_partition_loop t d ys w1" by simp
  then show ?thesis unfolding srv_partition_loop_append l by (cases r) simp_all
qed

lemma select_exists_value:
  "\<not> rejects w (issued w) (SelectExists tn sn) \<Longrightarrow>
     fst (select_exists tn sn w) = Inr (exists_answer w (issued w) tn sn)"
  by (simp add: select_exists_def issue_def)

lemma srv_validate_absent:
  assumes "\<not> exists_answer w (issued w) (table_name t) (schema t)"
  shows "fst (srv_validate t w) \<noteq> Inr True"
  using assms
  by (auto simp: srv_validate_def select_exists_def issue_def
        split: bool.splits option.splits sum.splits)

lemma process_table_config_absent:
  assumes "\<not> exists_answer w (issued w) (api_table_name cfg) (api_schema_name cfg)"
  shows "status (fst (process_table_config cfg w)) = ''error'' \<and>
         issued (snd (process_table_config cfg w)) =
           issued w @ [SelectExists (api_table_name cfg) (api_schema_name cfg)]"
proof -
  let ?t = "to_domain cfg"
  have n: "table_name ?t = api_table_name cfg" "schema ?t = api_schema_name cfg"
    by (simp_all add: to_domain_def Let_def)
  obtain r w1 where v: "srv_validate ?t w = (r, w1)" by (cases "srv_validate ?t w")
  have nt: "r \<noteq> Inr True"
    using srv_validate_absent [where t = ?t and w = w] assms n v by simp
  have i: "issued w1 = issued w @ [SelectExists (api_table_name cfg) (api_schema_name cfg)]"
    using srv_validate_issued [of ?t w] v n by simp
  show ?thesis
  proof (cases r)
    case (Inl e)
    with v i show ?thesis by (simp add: process_table_config_def Let_def)
  next
    case (Inr b)
    with nt have "b = False" by simp
    with Inr v i show ?thesis by (simp add: process_table_config_def Let_def detail_def)
  qed
qed

section \<open>Existence of the table\<close>

text \<open>
  Claim C2. A table the catalog reports absent fails validation, and is not pruned;
  the absence is the value false, not an error. \<^verbatim>\<open>src/models.py\<close> overwrites the
  answer of the catalog with \<^verbatim>\<open>table_exists = True\<close>: for the table
  \<open>public.missing\<close>, which the server reports absent, its validation returns true,
  and pruning then lists partitions and sends the \<^verbatim>\<open>DROP TABLE\<close> for the absent
  table. The service's copy returns false on the same input.
\<close>

theorem cli_validate_accepts_absent_table:
  "\<not> exists_answer (example_env ''events'' [] 0) [] ''missing'' ''public'' \<and>
   fst (cli_validate (table_with ''missing'' (time_policy 15)) (example_env ''events'' [] 0)) =
     Inr True \<and>
   issued (snd (cli_prune (table_with ''missing'' (time_policy 15))
                  (snd (cli_validate (table_with ''missing'' (time_policy 15))
                          (example_env ''events'' [] 0))))) =
     [SelectExists ''missing'' ''public'', SelectPartitionsByName ''missing'', Commit,
      DropTableIfExists ''public'' ''missing'', Commit] \<and>
   fst (srv_validate (table_with ''missing'' (time_policy 15)) (example_env ''events'' [] 0)) =
     Inr False"
  by code_simp

section \<open>The parent table\<close>

text \<open>
  Claim C1. The time-based pass removes only child partitions whose decoded time is
  past the cutoff; the parent table is never dropped. \<^verbatim>\<open>_drop_table\<close> of
  \<^verbatim>\<open>src/models.py\<close> ends with \<^verbatim>\<open>DROP TABLE IF EXISTS {schema}.{table_name}\<close>: on
  \<open>public.events\<close> with one old and one future partition (local zone UTC-5, so that
  the cutoff of that file is the intended one) it sends the \<^verbatim>\<open>DROP TABLE\<close> for the
  old partition, commits, and then sends the \<^verbatim>\<open>DROP TABLE\<close> for the parent itself.
  The service's copy sends nothing after the partition and the commit.
\<close>

theorem cli_prune_drops_parent_table:
  "(case cli_prune (table_with ''events'' (time_policy 15)) (example_env ''events'' [''events_p20230101_000000'', ''events_p99990101_000000''] (- 18000)) of
      (r, w) \<Rightarrow> (r, issued w)) =
     (Inr (),
      [SelectPartitionsByName ''events'',
       DropTableIfExists ''public'' ''events_p20230101_000000'', Commit,
       DropTableIfExists ''public'' ''events'', Commit]) \<and>
   (case srv_prune (table_with ''events'' (time_policy 15)) (example_env ''events'' [''events_p20230101_000000'', ''events_p99990101_000000''] (- 18000)) of
      (r, w) \<Rightarrow> (r, issued w)) =
     (Inr (),
      [SelectPartitions ''events'' ''public'',
       DropTableIfExists ''public'' ''events_p20230101_000000'', Commit])"
  by code_simp

section \<open>The cutoff\<close>

text \<open>
  The two cutoffs, for every table, name and clock. The service compares with the
  reading of the clock minus the retention (\<open>srv_partition_step_drops_iff\<close>, in the
  section on the service's pass); the script compares with that reading shifted by
  the local offset plus five hours, which is the same instant only in zone UTC-5.
\<close>

lemma cli_partition_step_drops_iff:
  assumes m: "re_match w (table_name t) n = Inr True"
    and p: "cli_partition_datetime n = Inr pdt"
    and pol: "retention_policy t = Some P" "timeretention P = Some tr"
    and td: "timedelta_seconds (retention_seconds tr) = Inr d"
    and sub: "datetime_sub (utc_clock w (clock_reads w) + local_utcoffset w * 1000000) d = Inr c"
  shows "issued (snd (cli_partition_step t n w)) =
           issued w @
           (if utc_micros pdt <
                 utc_clock w (clock_reads w) + (local_utcoffset w + 5 * 3600) * 1000000 - d * 1000000
            then [DropTableIfExists (schema t) n] else [])"
proof -
  let ?w1 = "w\<lparr>clock_reads := Suc (clock_reads w)\<rparr>"
  have c: "c = utc_clock w (clock_reads w) + local_utcoffset w * 1000000 - d * 1000000"
    using sub by (auto simp: datetime_sub_def Let_def split: if_splits)
  have r: "replace_tz_minus5 c =
      utc_clock w (clock_reads w) + (local_utcoffset w + 5 * 3600) * 1000000 - d * 1000000"
    unfolding c replace_tz_minus5_def by (simp add: algebra_simps)
  show ?thesis
  proof (cases "utc_micros pdt < replace_tz_minus5 c")
    case True
    then have "cli_partition_step t n w = drop_table_if_exists (schema t) n ?w1"
      using m p pol td sub by (simp add: cli_partition_step_def now_local_def Let_def)
    then show ?thesis using True r issued_drop [of "schema t" n ?w1] by simp
  next
    case False
    then have "cli_partition_step t n w = (Inr (), ?w1)"
      using m p pol td sub by (simp add: cli_partition_step_def now_local_def Let_def)
    then show ?thesis using False r by simp
  qed
qed

text \<open>
  Claim C3. A partition decoded to the time \<open>t\<close> is dropped exactly when
  \<open>t < now_utc() - d\<close>; a partition at the cutoff stays. \<^verbatim>\<open>src/models.py\<close> takes the
  local wall clock without a zone and labels it UTC-5. On a machine whose local zone
  is UTC, at 2023-01-01T12:00:00 UTC and with 15 seconds of retention, the partition
  of that very instant is not older than the cutoff, and the script drops it; the
  service's copy, which reads the clock in UTC, keeps it.
\<close>

theorem cli_cutoff_is_not_utc:
  "cli_partition_datetime ''events_p20230101_120000'' =
     Inr \<lparr>year = 2023, month = 1, day = 1, hour = 12, minute = 0, second = 0, microsecond = 0\<rparr> \<and>
   utc_clock (example_env ''events'' [''events_p20230101_120000''] 0) 0 =
     utc_micros \<lparr>year = 2023, month = 1, day = 1, hour = 12, minute = 0, second = 0,
                 microsecond = 0\<rparr> \<and>
   issued (snd (cli_partition_step (table_with ''events'' (time_policy 15))
                  ''events_p20230101_120000''
                  (example_env ''events'' [''events_p20230101_120000''] 0))) =
     [DropTableIfExists ''public'' ''events_p20230101_120000''] \<and>
   issued (snd (srv_partition_step (table_with ''events'' (time_policy 15)) 15
                  ''events_p20230101_120000''
                  (example_env ''events'' [''events_p20230101_120000''] 0))) = []"
  by code_simp

section \<open>Decoding a partition name\<close>

lemma digit_cases:
  assumes "0 \<le> k" "k < 10"
  shows "k = 0 \<or> k = 1 \<or> k = 2 \<or> k = 3 \<or> k = 4 \<or> k = 5 \<or> k = 6 \<or> k = 7 \<or> k = 8 \<or> k = (9::int)"
  using assms by arith

lemma digit_char_numeral:
  "digit_char 0 = CHR ''0''" "digit_char 1 = CHR ''1''" "digit_char 2 = CHR ''2''"
  "digit_char 3 = CHR ''3''" "digit_char 4 = CHR ''4''" "digit_char 5 = CHR ''5''"
  "digit_char 6 = CHR ''6''" "digit_char 7 = CHR ''7''" "digit_char 8 = CHR ''8''"
  "digit_char 9 = CHR ''9''"
  by (simp_all add: digit_char_def eval_nat_numeral)

lemma digit_char_props:
  assumes "0 \<le> k" "k < 10"
  shows "is_digit (digit_char k)" "digit_val (digit_char k) = k"
    "digit_char k \<noteq> CHR ''_''" "\<not> is_space (digit_char k)"
    "in_range ''123456789'' (digit_char k) \<longleftrightarrow> 1 \<le> k"
    "in_range ''012345'' (digit_char k) \<longleftrightarrow> k \<le> 5"
    "in_range ''0123'' (digit_char k) \<longleftrightarrow> k \<le> 3"
    "in_range ''012'' (digit_char k) \<longleftrightarrow> k \<le> 2"
    "in_range ''01'' (digit_char k) \<longleftrightarrow> k \<le> 1"
    "in_range ''12'' (digit_char k) \<longleftrightarrow> k = 1 \<or> k = 2"
    "in_range ''0'' (digit_char k) \<longleftrightarrow> k = 0"
    "in_range ''1'' (digit_char k) \<longleftrightarrow> k = 1"
    "in_range ''2'' (digit_char k) \<longleftrightarrow> k = 2"
    "in_range ''3'' (digit_char k) \<longleftrightarrow> k = 3"
    "in_range ''6'' (digit_char k) \<longleftrightarrow> k = 6"
  using digit_cases [OF assms]
  by (auto simp: digit_char_numeral is_digit_def digit_val_def is_space_def in_range_def)

lemma two_digits_pad2:
  assumes "0 \<le> n" "n < 100"
  shows "two_digits P Q (pad2 n @ r) =
           (if P (digit_char (n div 10)) \<and> Q (digit_char (n mod 10)) then [(n, r)] else [])"
proof -
  have a: "0 \<le> n div 10" "n div 10 < 10" "0 \<le> n mod 10" "n mod 10 < 10"
    using assms by auto
  have "10 * digit_val (digit_char (n div 10)) + digit_val (digit_char (n mod 10)) = n"
    using digit_char_props(2) [OF a(1,2)] digit_char_props(2) [OF a(3,4)] by simp
  then show ?thesis
    using digit_char_props(1) [OF a(1,2)] digit_char_props(1) [OF a(3,4)]
    by (simp add: two_digits_def pad2_def)
qed

lemma starts_with_simps [simp]:
  "starts_with (v # xs) u = (u = v)"
  "starts_with [] u = False"
  "starts_with ([] @ ys) u = starts_with ys u"
  "starts_with ((v # xs) @ ys) u = (u = v)"
  by (auto simp: starts_with_def)

lemma alternatives_Y:
  assumes "0 \<le> y" "y \<le> 9999"
  shows "alternatives Dir_Y (pad4 y @ r) = [(y, r)]"
proof -
  let ?hi = "y div 100" and ?lo = "y mod 100"
  have hi: "0 \<le> ?hi" "?hi < 100" using assms by auto
  have lo: "0 \<le> ?lo" "?lo < 100" by auto
  have a: "0 \<le> ?hi div 10" "?hi div 10 < 10" "0 \<le> ?hi mod 10" "?hi mod 10 < 10"
    using hi by auto
  have b: "0 \<le> ?lo div 10" "?lo div 10 < 10" "0 \<le> ?lo mod 10" "?lo mod 10 < 10"
    using lo by auto
  have "10 * (?hi div 10) + ?hi mod 10 = ?hi" "10 * (?lo div 10) + ?lo mod 10 = ?lo"
    by simp_all
  moreover have "100 * ?hi + ?lo = y" by simp
  ultimately have "1000 * (?hi div 10) + 100 * (?hi mod 10) + 10 * (?lo div 10) + ?lo mod 10 = y"
    by linarith
  then show ?thesis
    using digit_char_props(1,2) [OF a(1,2)] digit_char_props(1,2) [OF a(3,4)]
      digit_char_props(1,2) [OF b(1,2)] digit_char_props(1,2) [OF b(3,4)]
    by (simp add: pad4_def pad2_def)
qed

lemma div10_bounds:
  assumes "0 \<le> n" "n < (100::int)"
  shows "0 \<le> n div 10" "n div 10 < 10" "0 \<le> n mod 10" "n mod 10 < 10"
  using assms by auto

lemma m_split:
  assumes "1 \<le> m" "m \<le> (12::int)"
  shows "(m div 10 = 1 \<and> m mod 10 \<le> 2) \<or> (m div 10 = 0 \<and> 1 \<le> m mod 10)"
proof (cases "m < 10")
  case True
  then have "m div 10 = 0" "m mod 10 = m" using assms by simp_all
  then show ?thesis using assms by simp
next
  case False
  then have "m = 10 \<or> m = 11 \<or> m = 12" using assms by arith
  then show ?thesis by auto
qed

lemma alternatives_m:
  assumes "1 \<le> m" "m \<le> 12"
  shows "starts_with (alternatives Dir_m (pad2 m @ r)) (m, r)"
proof -
  have n: "0 \<le> m" "m < 100" using assms by simp_all
  note b = div10_bounds [OF n]
  note p = digit_char_props [OF b(1,2)] and q = digit_char_props [OF b(3,4)]
  from m_split [OF assms] show ?thesis
  proof
    assume a: "m div 10 = 1 \<and> m mod 10 \<le> 2"
    have "in_range ''1'' (digit_char (m div 10))" "in_range ''012'' (digit_char (m mod 10))"
      using a p(12) q(8) by blast+
    then show ?thesis
      by (simp add: two_digits_pad2 [OF n])
  next
    assume a: "m div 10 = 0 \<and> 1 \<le> m mod 10"
    have "\<not> in_range ''1'' (digit_char (m div 10))" "in_range ''0'' (digit_char (m div 10))"
      "in_range ''123456789'' (digit_char (m mod 10))"
      using a p(12) p(11) q(5) by simp_all
    then show ?thesis
      by (simp add: two_digits_pad2 [OF n])
  qed
qed

lemma div10_le:
  assumes "n \<le> (k::int)"
  shows "n div 10 \<le> k div 10"
  using assms by (intro zdiv_mono1) simp_all

lemma alternatives_d:
  assumes "1 \<le> d" "d \<le> 31"
  shows "starts_with (alternatives Dir_d (pad2 d @ r)) (d, r)"
proof -
  have n: "0 \<le> d" "d < 100" using assms by simp_all
  note b = div10_bounds [OF n]
  note p = digit_char_props [OF b(1,2)] and q = digit_char_props [OF b(3,4)]
  consider "30 \<le> d" | "10 \<le> d" "d < 30" | "d < 10" by linarith
  then show ?thesis
  proof cases
    case 1
    then have "d = 30 \<or> d = 31" using assms by arith
    then have a: "d div 10 = 3 \<and> d mod 10 \<le> 1" by auto
    have "in_range ''3'' (digit_char (d div 10))" "in_range ''01'' (digit_char (d mod 10))"
      using a p(14) q(9) by blast+
    then show ?thesis by (simp add: two_digits_pad2 [OF n])
  next
    case 2
    have "10 div 10 \<le> d div 10" "d div 10 \<le> 29 div 10"
      using 2 by (intro div10_le, simp)+
    then have a: "d div 10 = 1 \<or> d div 10 = 2" by simp arith
    have "\<not> in_range ''3'' (digit_char (d div 10))" "in_range ''12'' (digit_char (d div 10))"
      using a p(14) p(10) by auto
    then show ?thesis using q(1) by (simp add: two_digits_pad2 [OF n])
  next
    case 3
    then have a: "d div 10 = 0" "d mod 10 = d" using assms by simp_all
    have "\<not> in_range ''3'' (digit_char (d div 10))" "\<not> in_range ''12'' (digit_char (d div 10))"
      "in_range ''0'' (digit_char (d div 10))" "in_range ''123456789'' (digit_char (d mod 10))"
      using a assms p(14) p(10) p(11) q(5) by simp_all
    then show ?thesis by (simp add: two_digits_pad2 [OF n])
  qed
qed

lemma alternatives_H:
  assumes "0 \<le> H" "H < 24"
  shows "starts_with (alternatives Dir_H (pad2 H @ r)) (H, r)"
proof -
  have n: "0 \<le> H" "H < 100" using assms by simp_all
  note b = div10_bounds [OF n]
  note p = digit_char_props [OF b(1,2)] and q = digit_char_props [OF b(3,4)]
  show ?thesis
  proof (cases "20 \<le> H")
    case True
    then have "H = 20 \<or> H = 21 \<or> H = 22 \<or> H = 23" using assms by arith
    then have a: "H div 10 = 2 \<and> H mod 10 \<le> 3" by auto
    have "in_range ''2'' (digit_char (H div 10))" "in_range ''0123'' (digit_char (H mod 10))"
      using a p(13) q(7) by blast+
    then show ?thesis by (simp add: two_digits_pad2 [OF n])
  next
    case False
    then have "H div 10 \<le> 19 div 10" by (intro div10_le) simp
    then have a: "H div 10 \<le> 1" by simp
    have "\<not> in_range ''2'' (digit_char (H div 10))" "in_range ''01'' (digit_char (H div 10))"
      using a p(13) p(9) by auto
    then show ?thesis using q(1) by (simp add: two_digits_pad2 [OF n])
  qed
qed

lemma alternatives_M:
  assumes "0 \<le> M" "M < 60"
  shows "starts_with (alternatives Dir_M (pad2 M @ r)) (M, r)"
proof -
  have n: "0 \<le> M" "M < 100" using assms by simp_all
  note b = div10_bounds [OF n]
  note p = digit_char_props [OF b(1,2)] and q = digit_char_props [OF b(3,4)]
  have "M div 10 \<le> 59 div 10" using assms by (intro div10_le) simp
  then have a: "M div 10 \<le> 5" by simp
  have "in_range ''012345'' (digit_char (M div 10))" using a p(6) by blast
  then show ?thesis using q(1) by (simp add: two_digits_pad2 [OF n])
qed

lemma alternatives_S:
  assumes "0 \<le> S" "S < 60"
  shows "starts_with (alternatives Dir_S (pad2 S @ r)) (S, r)"
proof -
  have n: "0 \<le> S" "S < 100" using assms by simp_all
  note b = div10_bounds [OF n]
  note p = digit_char_props [OF b(1,2)] and q = digit_char_props [OF b(3,4)]
  have "S div 10 \<le> 59 div 10" using assms by (intro div10_le) simp
  then have a: "S div 10 \<le> 5" by simp
  have "in_range ''012345'' (digit_char (S div 10))" "\<not> in_range ''6'' (digit_char (S div 10))"
    using a p(6) p(15) by auto
  then show ?thesis using q(1) by (simp add: two_digits_pad2 [OF n])
qed

lemma parse_format_starts:
  assumes "starts_with (alternatives d s) (v, r)"
    and "starts_with (parse_format ds r) (vs, r')"
  shows "starts_with (parse_format (d # ds) s) (v # vs, r')"
proof -
  from assms obtain as ps where "alternatives d s = (v, r) # as" "parse_format ds r = (vs, r') # ps"
    unfolding starts_with_def by blast
  then show ?thesis by (simp add: starts_with_def)
qed

lemma alternatives_space:
  assumes "\<not> is_space c"
  shows "alternatives Dir_space (CHR '' '' # c # r) = [(0, c # r)]"
proof -
  have "is_space (CHR '' '')" by (simp add: is_space_def)
  then have "takeWhile is_space (CHR '' '' # c # r) = [CHR '' '']" using assms by simp
  then show ?thesis by simp
qed

lemma pad2_Cons: "pad2 n @ r = digit_char (n div 10) # digit_char (n mod 10) # r"
  by (simp add: pad2_def)

lemma make_datetime_ranges:
  assumes "make_datetime y m d H M S = Inr dt"
  shows "0 \<le> y" "y \<le> 9999" "1 \<le> m" "m \<le> 12" "1 \<le> d" "d \<le> 31"
    "0 \<le> H" "H < 24" "0 \<le> M" "M < 60" "0 \<le> S" "S < 60"
    "dt = \<lparr>year = y, month = m, day = d, hour = H, minute = M, second = S, microsecond = 0\<rparr>"
proof -
  from assms have r: "1 \<le> y" "y \<le> 9999" "1 \<le> m" "m \<le> 12" "1 \<le> d" "d \<le> days_in_month y m"
    "0 \<le> H" "H < 24" "0 \<le> M" "M < 60" "0 \<le> S" "S < 60"
    and dt: "dt = \<lparr>year = y, month = m, day = d, hour = H, minute = M, second = S, microsecond = 0\<rparr>"
    by (auto simp: make_datetime_def split: if_splits)
  have "days_in_month y m \<le> 31" by (simp add: days_in_month_def)
  with r dt show "0 \<le> y" "y \<le> 9999" "1 \<le> m" "m \<le> 12" "1 \<le> d" "d \<le> 31"
    "0 \<le> H" "H < 24" "0 \<le> M" "M < 60" "0 \<le> S" "S < 60"
    "dt = \<lparr>year = y, month = m, day = d, hour = H, minute = M, second = S, microsecond = 0\<rparr>"
    by simp_all
qed

lemma strptime_cli_encoded:
  assumes "make_datetime y m d H M S = Inr dt"
  shows "strptime cli_format ((pad4 y @ pad2 m @ pad2 d) @ '' '' @ (pad2 H @ pad2 M @ pad2 S)) = Inr dt"
proof -
  note r = make_datetime_ranges [OF assms]
  have nsp: "\<not> is_space (digit_char (H div 10))"
    using digit_char_props(4) [of "H div 10"] div10_bounds [of H] r by simp
  have "starts_with (parse_format [Dir_S] (pad2 S @ [])) ([S], [])"
    by (rule parse_format_starts [OF alternatives_S [OF r(11,12)]]) simp
  then have "starts_with (parse_format [Dir_M, Dir_S] (pad2 M @ pad2 S @ [])) ([M, S], [])"
    by (rule parse_format_starts [OF alternatives_M [OF r(9,10)]])
  then have "starts_with (parse_format [Dir_H, Dir_M, Dir_S] (pad2 H @ pad2 M @ pad2 S @ []))
               ([H, M, S], [])"
    by (rule parse_format_starts [OF alternatives_H [OF r(7,8)]])
  then have "starts_with (parse_format [Dir_space, Dir_H, Dir_M, Dir_S]
               (CHR '' '' # digit_char (H div 10) # digit_char (H mod 10) # pad2 M @ pad2 S @ []))
               ([0, H, M, S], [])"
  proof -
    assume h: "starts_with (parse_format [Dir_H, Dir_M, Dir_S] (pad2 H @ pad2 M @ pad2 S @ []))
               ([H, M, S], [])"
    have sp: "starts_with (alternatives Dir_space
                (CHR '' '' # digit_char (H div 10) # digit_char (H mod 10) # pad2 M @ pad2 S @ []))
                (0, pad2 H @ pad2 M @ pad2 S @ [])"
      unfolding alternatives_space [OF nsp] by (simp add: pad2_def)
    show ?thesis by (rule parse_format_starts [OF sp h])
  qed
  then have "starts_with (parse_format [Dir_d, Dir_space, Dir_H, Dir_M, Dir_S]
               (pad2 d @ CHR '' '' # digit_char (H div 10) # digit_char (H mod 10) # pad2 M @ pad2 S @ []))
               ([d, 0, H, M, S], [])"
    by (rule parse_format_starts [OF alternatives_d [OF r(5,6)]])
  then have "starts_with (parse_format [Dir_m, Dir_d, Dir_space, Dir_H, Dir_M, Dir_S]
               (pad2 m @ pad2 d @ CHR '' '' # digit_char (H div 10) # digit_char (H mod 10) # pad2 M @ pad2 S @ []))
               ([m, d, 0, H, M, S], [])"
    by (rule parse_format_starts [OF alternatives_m [OF r(3,4)]])
  then have "starts_with (parse_format cli_format
               (pad4 y @ pad2 m @ pad2 d @ CHR '' '' # digit_char (H div 10) # digit_char (H mod 10) # pad2 M @ pad2 S @ []))
               ([y, m, d, 0, H, M, S], [])"
  proof -
    assume h: "starts_with (parse_format [Dir_m, Dir_d, Dir_space, Dir_H, Dir_M, Dir_S]
               (pad2 m @ pad2 d @ CHR '' '' # digit_char (H div 10) # digit_char (H mod 10) # pad2 M @ pad2 S @ []))
               ([m, d, 0, H, M, S], [])"
    have yy: "starts_with (alternatives Dir_Y
               (pad4 y @ pad2 m @ pad2 d @ CHR '' '' # digit_char (H div 10) # digit_char (H mod 10) # pad2 M @ pad2 S @ []))
               (y, pad2 m @ pad2 d @ CHR '' '' # digit_char (H div 10) # digit_char (H mod 10) # pad2 M @ pad2 S @ [])"
      unfolding alternatives_Y [OF r(1,2)] by simp
    show ?thesis unfolding cli_format_def by (rule parse_format_starts [OF yy h])
  qed
  then obtain ps where "parse_format cli_format
      ((pad4 y @ pad2 m @ pad2 d) @ '' '' @ (pad2 H @ pad2 M @ pad2 S)) = ([y, m, d, 0, H, M, S], []) # ps"
    unfolding starts_with_def by (auto simp: pad2_Cons)
  then show ?thesis
    using assms by (simp add: strptime_def cli_format_def field_or_def)
qed

lemma split_from_nonempty: "split_from a as s \<noteq> []"
  by (induction a as s rule: split_from.induct) (auto split: list.splits)

lemma split_char_none: "a \<notin> set s \<Longrightarrow> split_from a [] s = [s]"
  by (induction s) auto

lemma split_char_append:
  "split_from a [] (xs @ a # ys) = split_from a [] xs @ split_from a [] ys"
proof (induction xs)
  case Nil
  show ?case by simp
next
  case (Cons c xs)
  obtain seg segs where s: "split_from a [] xs = seg # segs"
    using split_from_nonempty [of a "[]" xs] by (cases "split_from a [] xs") auto
  show ?case using Cons s by simp
qed

lemma index_from_end_last2:
  "index_from_end (xs @ [u, v]) 1 = Inr v" "index_from_end (xs @ [u, v]) 2 = Inr u"
  "index_from_end (xs @ [u, v]) (Suc 0) = Inr v"
  by (simp_all add: index_from_end_def nth_append)

lemma pad2_no_underscore:
  assumes "0 \<le> n" "n < 100"
  shows "CHR ''_'' \<notin> set (pad2 n)" "length (pad2 n) = 2"
  using digit_char_props(3) [of "n div 10"] digit_char_props(3) [of "n mod 10"] div10_bounds [OF assms]
  by (auto simp: pad2_def)

lemma pad4_no_underscore:
  assumes "0 \<le> n" "n \<le> 9999"
  shows "CHR ''_'' \<notin> set (pad4 n)" "length (pad4 n) = 4"
proof -
  have "0 \<le> n div 100" "n div 100 < 100" "0 \<le> n mod 100" "n mod 100 < 100"
    using assms by auto
  then show "CHR ''_'' \<notin> set (pad4 n)" "length (pad4 n) = 4"
    using pad2_no_underscore [of "n div 100"] pad2_no_underscore [of "n mod 100"]
    by (simp_all add: pad4_def)
qed

lemma cli_partition_datetime_conventional:
  assumes "length ds = 8" "CHR ''_'' \<notin> set ds" "CHR ''_'' \<notin> set ts"
  shows "cli_partition_datetime (conventional_name tn ds ts) = strptime cli_format (ds @ '' '' @ ts)"
proof -
  have c: "conventional_name tn ds ts = tn @ CHR ''_'' # ((CHR ''p'' # ds) @ CHR ''_'' # ts)"
    by (simp add: conventional_name_def)
  have p: "CHR ''_'' \<notin> set (CHR ''p'' # ds)" using assms(2) by simp
  have "split_from (CHR ''_'') [] ((CHR ''p'' # ds) @ CHR ''_'' # ts) = [CHR ''p'' # ds, ts]"
    unfolding split_char_append split_char_none [OF p] split_char_none [OF assms(3)] by simp
  then have "split_underscore (conventional_name tn ds ts) =
          split_underscore tn @ [CHR ''p'' # ds, ts]"
    unfolding c split_underscore_def split_char_append by simp
  then show ?thesis
    using assms(1) by (simp add: cli_partition_datetime_def index_from_end_last2)
qed

text \<open>
  The script's decoding returns the date and time a name was written from, whatever
  the parent's name is.
\<close>

lemma cli_partition_datetime_encode:
  assumes "make_datetime y m d H M S = Inr dt"
  shows "cli_partition_datetime (encode_partition_name tn dt) = Inr dt"
proof -
  note r = make_datetime_ranges [OF assms]
  let ?ds = "pad4 y @ pad2 m @ pad2 d" and ?ts = "pad2 H @ pad2 M @ pad2 S"
  have e: "encode_partition_name tn dt = conventional_name tn ?ds ?ts"
    by (simp add: encode_partition_name_def r(13))
  have m: "0 \<le> m" "m < 100" "0 \<le> d" "d < 100" "H < 100" "M < 100" "S < 100"
    using r by simp_all
  have "length ?ds = 8" "CHR ''_'' \<notin> set ?ds"
    using pad4_no_underscore [OF r(1,2)] pad2_no_underscore [OF m(1,2)] pad2_no_underscore [OF m(3,4)]
    by simp_all
  moreover have "CHR ''_'' \<notin> set ?ts"
    using pad2_no_underscore [OF r(7) m(5)] pad2_no_underscore [OF r(9) m(6)]
      pad2_no_underscore [OF r(11) m(7)]
    by simp
  ultimately have "cli_partition_datetime (conventional_name tn ?ds ?ts) =
        strptime cli_format (?ds @ '' '' @ ?ts)"
    by (rule cli_partition_datetime_conventional)
  then show ?thesis unfolding e using strptime_cli_encoded [OF assms] by simp
qed

text \<open>
  The service's decoding does the same for the parents whose name does not hold
  \<open>_p\<close>.
\<close>

lemma split_underscore_p_whole:
  "\<not> contains_underscore_p s \<Longrightarrow> split_from (CHR ''_'') ''p'' s = [s]"
proof (induction s rule: contains_underscore_p.induct)
  case 1
  show ?case by simp
next
  case (2 a)
  show ?case by simp
next
  case (3 a b r)
  then show ?case by auto
qed

lemma split_underscore_p_first:
  "\<not> contains_underscore_p xs \<Longrightarrow>
   split_from (CHR ''_'') ''p'' (xs @ CHR ''_'' # CHR ''p'' # ys) =
     xs # split_from (CHR ''_'') ''p'' ys"
proof (induction xs rule: contains_underscore_p.induct)
  case 1
  show ?case by simp
next
  case (2 a)
  show ?case by simp
next
  case (3 a b r)
  then show ?case by auto
qed

lemma no_p_no_underscore_p: "CHR ''p'' \<notin> set s \<Longrightarrow> \<not> contains_underscore_p s"
  by (induction s rule: contains_underscore_p.induct) auto

lemma digit_char_not_p:
  assumes "0 \<le> k" "k < 10"
  shows "digit_char k \<noteq> CHR ''p''"
  using digit_cases [OF assms] by (auto simp: digit_char_numeral)

lemma pad2_no_p:
  assumes "0 \<le> n" "n < 100"
  shows "CHR ''p'' \<notin> set (pad2 n)"
  using digit_char_not_p [of "n div 10"] digit_char_not_p [of "n mod 10"] div10_bounds [OF assms]
  by (auto simp: pad2_def)

lemma pad4_no_p:
  assumes "0 \<le> n" "n \<le> 9999"
  shows "CHR ''p'' \<notin> set (pad4 n)"
proof -
  have "0 \<le> n div 100" "n div 100 < 100" "0 \<le> n mod 100" "n mod 100 < 100"
    using assms by auto
  then show ?thesis
    using pad2_no_p [of "n div 100"] pad2_no_p [of "n mod 100"] by (simp add: pad4_def)
qed

lemma strptime_srv_encoded:
  assumes "make_datetime y m d H M S = Inr dt"
  shows "strptime srv_format ((pad4 y @ pad2 m @ pad2 d) @ (pad2 H @ pad2 M @ pad2 S)) = Inr dt"
proof -
  note r = make_datetime_ranges [OF assms]
  have "starts_with (parse_format [Dir_S] (pad2 S @ [])) ([S], [])"
    by (rule parse_format_starts [OF alternatives_S [OF r(11,12)]]) simp
  then have "starts_with (parse_format [Dir_M, Dir_S] (pad2 M @ pad2 S @ [])) ([M, S], [])"
    by (rule parse_format_starts [OF alternatives_M [OF r(9,10)]])
  then have "starts_with (parse_format [Dir_H, Dir_M, Dir_S] (pad2 H @ pad2 M @ pad2 S @ []))
               ([H, M, S], [])"
    by (rule parse_format_starts [OF alternatives_H [OF r(7,8)]])
  then have "starts_with (parse_format [Dir_d, Dir_H, Dir_M, Dir_S]
               (pad2 d @ pad2 H @ pad2 M @ pad2 S @ [])) ([d, H, M, S], [])"
    by (rule parse_format_starts [OF alternatives_d [OF r(5,6)]])
  then have h: "starts_with (parse_format [Dir_m, Dir_d, Dir_H, Dir_M, Dir_S]
               (pad2 m @ pad2 d @ pad2 H @ pad2 M @ pad2 S @ [])) ([m, d, H, M, S], [])"
    by (rule parse_format_starts [OF alternatives_m [OF r(3,4)]])
  have yy: "starts_with (alternatives Dir_Y (pad4 y @ pad2 m @ pad2 d @ pad2 H @ pad2 M @ pad2 S @ []))
               (y, pad2 m @ pad2 d @ pad2 H @ pad2 M @ pad2 S @ [])"
    unfolding alternatives_Y [OF r(1,2)] by simp
  have "starts_with (parse_format srv_format
               (pad4 y @ pad2 m @ pad2 d @ pad2 H @ pad2 M @ pad2 S @ [])) ([y, m, d, H, M, S], [])"
    unfolding srv_format_def by (rule parse_format_starts [OF yy h])
  then obtain ps where "parse_format srv_format
      ((pad4 y @ pad2 m @ pad2 d) @ (pad2 H @ pad2 M @ pad2 S)) = ([y, m, d, H, M, S], []) # ps"
    unfolding starts_with_def by auto
  then show ?thesis
    using assms by (simp add: strptime_def srv_format_def field_or_def)
qed

lemma index_at_pair: "index_at [u, v] 1 = Inr v" "index_at [u, v] 0 = Inr u"
  "index_at [u, v] (Suc 0) = Inr v"
  by (simp_all add: index_at_def)

lemma srv_partition_datetime_conventional:
  assumes tn: "\<not> contains_underscore_p tn"
    and ds: "CHR ''_'' \<notin> set ds" "CHR ''p'' \<notin> set ds"
    and ts: "CHR ''_'' \<notin> set ts" "CHR ''p'' \<notin> set ts"
  shows "srv_partition_datetime (conventional_name tn ds ts) = strptime srv_format (ds @ ts)"
proof -
  have c: "conventional_name tn ds ts = tn @ CHR ''_'' # CHR ''p'' # (ds @ CHR ''_'' # ts)"
    by (simp add: conventional_name_def)
  have "CHR ''p'' \<notin> set (ds @ CHR ''_'' # ts)" using ds ts by simp
  then have w: "split_from (CHR ''_'') ''p'' (ds @ CHR ''_'' # ts) = [ds @ CHR ''_'' # ts]"
    by (intro split_underscore_p_whole no_p_no_underscore_p)
  have s1: "split_underscore_p (conventional_name tn ds ts) = [tn, ds @ CHR ''_'' # ts]"
    unfolding c split_underscore_p_def split_underscore_p_first [OF tn] w by simp
  have s2: "split_underscore (ds @ CHR ''_'' # ts) = [ds, ts]"
    unfolding split_underscore_def split_char_append
      split_char_none [OF ds(1)] split_char_none [OF ts(1)] by simp
  have c2: "conventional_name tn ds ts = tn @ CHR ''_'' # ((CHR ''p'' # ds) @ CHR ''_'' # ts)"
    by (simp add: conventional_name_def)
  have p: "CHR ''_'' \<notin> set (CHR ''p'' # ds)" using ds(1) by simp
  have "split_from (CHR ''_'') [] ((CHR ''p'' # ds) @ CHR ''_'' # ts) = [CHR ''p'' # ds, ts]"
    unfolding split_char_append split_char_none [OF p] split_char_none [OF ts(1)] by simp
  then have s3: "split_underscore (conventional_name tn ds ts) =
          split_underscore tn @ [CHR ''p'' # ds, ts]"
    unfolding c2 split_underscore_def split_char_append by simp
  show ?thesis
    unfolding srv_partition_datetime_def s1 index_at_pair
    by (simp add: s2 s3 index_at_pair index_from_end_last2)
qed

lemma srv_partition_datetime_encode:
  assumes "make_datetime y m d H M S = Inr dt" and "\<not> contains_underscore_p tn"
  shows "srv_partition_datetime (encode_partition_name tn dt) = Inr dt"
proof -
  note r = make_datetime_ranges [OF assms(1)]
  let ?ds = "pad4 y @ pad2 m @ pad2 d" and ?ts = "pad2 H @ pad2 M @ pad2 S"
  have e: "encode_partition_name tn dt = conventional_name tn ?ds ?ts"
    by (simp add: encode_partition_name_def r(13))
  have m: "0 \<le> m" "m < 100" "0 \<le> d" "d < 100" "H < 100" "M < 100" "S < 100"
    using r by simp_all
  have "CHR ''_'' \<notin> set ?ds" "CHR ''p'' \<notin> set ?ds"
    using pad4_no_underscore [OF r(1,2)] pad2_no_underscore [OF m(1,2)] pad2_no_underscore [OF m(3,4)]
      pad4_no_p [OF r(1,2)] pad2_no_p [OF m(1,2)] pad2_no_p [OF m(3,4)]
    by simp_all
  moreover have "CHR ''_'' \<notin> set ?ts" "CHR ''p'' \<notin> set ?ts"
    using pad2_no_underscore [OF r(7) m(5)] pad2_no_underscore [OF r(9) m(6)]
      pad2_no_underscore [OF r(11) m(7)]
      pad2_no_p [OF r(7) m(5)] pad2_no_p [OF r(9) m(6)] pad2_no_p [OF r(11) m(7)]
    by simp_all
  ultimately have "srv_partition_datetime (conventional_name tn ?ds ?ts) =
        strptime srv_format (?ds @ ?ts)"
    by (rule srv_partition_datetime_conventional [OF assms(2)])
  then show ?thesis unfolding e using strptime_srv_encoded [OF assms(1)] by simp
qed

text \<open>
  Claim C4. A name \<open>{parent}_p{YYYYMMDD}_{HHMMSS}\<close> with a valid date and time decodes
  to exactly that date and time, for every parent name. The service's copy takes the
  date from the piece after the first \<^verbatim>\<open>"_p"\<close> of the whole name. For the parent
  \<open>user_profiles\<close>, whose own name holds \<^verbatim>\<open>"_p"\<close>, the partition
  \<open>user_profiles_p20230101_000000\<close> passes the filter, follows the convention, and
  is not decoded; for the parent \<open>t_p20200101_x\<close> the partition of 2023 decodes to
  2020. \<^verbatim>\<open>src/models.py\<close>, which counts the pieces from the end, decodes the first
  one rightly.
\<close>

theorem srv_partition_datetime_cuts_at_first_p:
  "re_match (example_env ''user_profiles'' [] 0) ''user_profiles''
     ''user_profiles_p20230101_000000'' = Inr True \<and>
   follows_convention ''user_profiles'' ''user_profiles_p20230101_000000'' \<and>
   srv_partition_datetime ''user_profiles_p20230101_000000'' =
     Inl (ValueError ''does not match format'') \<and>
   follows_convention ''t_p20200101_x'' ''t_p20200101_x_p20230101_000000'' \<and>
   srv_partition_datetime ''t_p20200101_x_p20230101_000000'' =
     Inr \<lparr>year = 2020, month = 1, day = 1, hour = 0, minute = 0, second = 0, microsecond = 0\<rparr> \<and>
   cli_partition_datetime ''user_profiles_p20230101_000000'' =
     Inr \<lparr>year = 2023, month = 1, day = 1, hour = 0, minute = 0, second = 0, microsecond = 0\<rparr>"
  by code_simp

section \<open>Names that do not decode\<close>

text \<open>
  Claim C7. A partition whose name does not match the pattern, or whose digits are no
  calendar date and time, is skipped; the pass goes on and completes. In
  \<^verbatim>\<open>src/models.py\<close> the call of \<^verbatim>\<open>strptime\<close> is not guarded: with the partitions
  \<open>events_p20230230_000000\<close> (30 February) and \<open>events_p20200101_000000\<close> the pass
  ends with the \<^verbatim>\<open>ValueError\<close> at the first, and the second, which is old, is
  neither dropped nor is anything committed. The service's copy skips the first and
  drops the second.
\<close>

theorem cli_invalid_date_aborts_pass:
  "(case cli_prune (table_with ''events'' (time_policy 15))
           (example_env ''events'' [''events_p20230230_000000'', ''events_p20200101_000000'']
              (- 18000)) of
      (r, w) \<Rightarrow> (r, issued w)) =
     (Inl (ValueError ''out of range''), [SelectPartitionsByName ''events'']) \<and>
   (case srv_prune (table_with ''events'' (time_policy 15))
           (example_env ''events'' [''events_p20230230_000000'', ''events_p20200101_000000'']
              (- 18000)) of
      (r, w) \<Rightarrow> (r, issued w)) =
     (Inr (),
      [SelectPartitions ''events'' ''public'',
       DropTableIfExists ''public'' ''events_p20200101_000000'', Commit])"
  by code_simp

section \<open>A drop that fails\<close>

text \<open>
  Claim C8. A failure while dropping one partition is recorded and the remaining
  partitions are processed; it never leaves the per-table pass. In
  \<^verbatim>\<open>src/models.py\<close> the \<^verbatim>\<open>DROP TABLE\<close> is not guarded: with two old partitions,
  when the server refuses to drop the first, the error leaves \<^verbatim>\<open>_drop_table\<close> and
  the second is never tried. The service's copy goes on to the second and commits.
\<close>

theorem cli_drop_failure_leaves_pass:
  "(case cli_prune (table_with ''events'' (time_policy 15))
           (example_env_rejecting ''events''
              [''events_p20200101_000000'', ''events_p20200102_000000''] (- 18000)
              (\<lambda>history s. s = DropTableIfExists ''public'' ''events_p20200101_000000'')) of
      (r, w) \<Rightarrow> (r, issued w)) =
     (Inl DatabaseError,
      [SelectPartitionsByName ''events'',
       DropTableIfExists ''public'' ''events_p20200101_000000'']) \<and>
   (case srv_prune (table_with ''events'' (time_policy 15))
           (example_env_rejecting ''events''
              [''events_p20200101_000000'', ''events_p20200102_000000''] (- 18000)
              (\<lambda>history s. s = DropTableIfExists ''public'' ''events_p20200101_000000'')) of
      (r, w) \<Rightarrow> (r, issued w)) =
     (Inr (),
      [SelectPartitions ''events'' ''public'',
       DropTableIfExists ''public'' ''events_p20200101_000000'',
       DropTableIfExists ''public'' ''events_p20200102_000000'', Commit])"
  by code_simp

section \<open>One outcome per table\<close>

lemma sample_run:
  "fst (prune_loop sample_batch [] sample_env) =
     [\<lparr>res_table_name = ''events'', res_schema_name = ''public'', status = ''success'',
        message = Some ''Successfully processed table public.events''\<rparr>,
      \<lparr>res_table_name = ''ghost'', res_schema_name = ''public'', status = ''error'',
        message = Some ''Validation failed for table public.ghost''\<rparr>,
      \<lparr>res_table_name = ''events'', res_schema_name = ''public'', status = ''error'',
        message = Some ''Either timeretention or conditions must be provided''\<rparr>,
      \<lparr>res_table_name = ''events'', res_schema_name = ''public'', status = ''error'',
        message = Some ''An unexpected error occurred: OverflowError''\<rparr>]"
  by code_simp

text \<open>
  Claim C9. For every batch the coordinator returns exactly one outcome per entry, in
  the order of the entries, whatever fails for single tables; an exception raised
  while one table is processed becomes the error outcome of that table and the
  remaining tables are processed. The connection is opened before the first table;
  the statement is about a batch whose connection was opened. The outcome of entry
  \<open>k\<close> is the one \<open>process_table_config\<close> computes for it in the session the earlier
  entries left behind, and it has the status \<open>error\<close> whenever validation or pruning
  of that table raised.
\<close>

theorem prune_tables_one_outcome_per_table:
  assumes "db_reachable w"
  shows "fst (prune_tables request_tables w) = Inr (fst (prune_loop request_tables [] w)) \<and>
         length (fst (prune_loop request_tables [] w)) = length request_tables \<and>
         map (\<lambda>r. (res_table_name r, res_schema_name r)) (fst (prune_loop request_tables [] w)) =
           map (\<lambda>c. (api_table_name c, api_schema_name c)) request_tables \<and>
         (\<forall>k < length request_tables.
            fst (prune_loop request_tables [] w) ! k =
              fst (process_table_config (request_tables ! k)
                     (snd (prune_loop (take k request_tables) [] w)))) \<and>
         (\<forall>cfg w0 e. fst (srv_validate (to_domain cfg) w0) = Inl e \<longrightarrow>
            status (fst (process_table_config cfg w0)) = ''error'') \<and>
         (\<forall>cfg w0 e. fst (srv_validate (to_domain cfg) w0) = Inr True \<and>
            fst (srv_prune (to_domain cfg) (snd (srv_validate (to_domain cfg) w0))) = Inl e \<longrightarrow>
            status (fst (process_table_config cfg w0)) = ''error'')"
proof -
  have "fst (prune_tables request_tables w) = Inr (fst (prune_loop request_tables [] w))"
    using assms by (simp add: prune_tables_def case_prod_beta)
  moreover have "\<forall>k < length request_tables.
            fst (prune_loop request_tables [] w) ! k =
              fst (process_table_config (request_tables ! k)
                     (snd (prune_loop (take k request_tables) [] w)))"
    using prune_loop_nth by blast
  ultimately show ?thesis
    using prune_loop_length [of request_tables w] prune_loop_names [of request_tables w]
      process_table_config_raised
    by blast
qed

theorem prune_tables_one_outcome_per_table_witness:
  "db_reachable sample_env \<and>
   fst (prune_tables sample_batch sample_env) =
     Inr [\<lparr>res_table_name = ''events'', res_schema_name = ''public'', status = ''success'',
            message = Some ''Successfully processed table public.events''\<rparr>,
          \<lparr>res_table_name = ''ghost'', res_schema_name = ''public'', status = ''error'',
            message = Some ''Validation failed for table public.ghost''\<rparr>,
          \<lparr>res_table_name = ''events'', res_schema_name = ''public'', status = ''error'',
            message = Some ''Either timeretention or conditions must be provided''\<rparr>,
          \<lparr>res_table_name = ''events'', res_schema_name = ''public'', status = ''error'',
            message = Some ''An unexpected error occurred: OverflowError''\<rparr>] \<and>
   (1::nat) < length sample_batch \<and>
   fst (prune_loop sample_batch [] sample_env) ! 1 =
     fst (process_table_config (sample_batch ! 1)
            (snd (prune_loop (take 1 sample_batch) [] sample_env))) \<and>
   fst (srv_validate (to_domain (sample_batch ! 2))
          (snd (prune_loop (take 2 sample_batch) [] sample_env))) =
     Inl (ValueError ''Either timeretention or conditions must be provided'') \<and>
   status (fst (process_table_config (sample_batch ! 2)
                  (snd (prune_loop (take 2 sample_batch) [] sample_env)))) = ''error'' \<and>
   fst (srv_validate (to_domain (sample_batch ! 3))
          (snd (prune_loop (take 3 sample_batch) [] sample_env))) = Inr True \<and>
   fst (srv_prune (to_domain (sample_batch ! 3))
          (snd (srv_validate (to_domain (sample_batch ! 3))
                  (snd (prune_loop (take 3 sample_batch) [] sample_env))))) = Inl OverflowError \<and>
   status (fst (process_table_config (sample_batch ! 3)
                  (snd (prune_loop (take 3 sample_batch) [] sample_env)))) = ''error''"
proof -
  have h: "db_reachable sample_env"
    by (simp add: sample_env_def example_env_def example_env_rejecting_def)
  have l: "(1::nat) < length sample_batch"
    by (simp add: sample_batch_def)
  have v2: "fst (srv_validate (to_domain (sample_batch ! 2))
          (snd (prune_loop (take 2 sample_batch) [] sample_env))) =
     Inl (ValueError ''Either timeretention or conditions must be provided'')"
    by code_simp
  have v3: "fst (srv_validate (to_domain (sample_batch ! 3))
          (snd (prune_loop (take 3 sample_batch) [] sample_env))) = Inr True"
    by code_simp
  have p3: "fst (srv_prune (to_domain (sample_batch ! 3))
          (snd (srv_validate (to_domain (sample_batch ! 3))
                  (snd (prune_loop (take 3 sample_batch) [] sample_env))))) = Inl OverflowError"
    by code_simp
  note t = prune_tables_one_outcome_per_table [OF h, of sample_batch]
  have s2: "status (fst (process_table_config (sample_batch ! 2)
                  (snd (prune_loop (take 2 sample_batch) [] sample_env)))) = ''error''"
    using t v2 by blast
  have s3: "status (fst (process_table_config (sample_batch ! 3)
                  (snd (prune_loop (take 3 sample_batch) [] sample_env)))) = ''error''"
    using t v3 p3 by blast
  have k1: "fst (prune_loop sample_batch [] sample_env) ! 1 =
     fst (process_table_config (sample_batch ! 1)
            (snd (prune_loop (take 1 sample_batch) [] sample_env)))"
    using t l by blast
  show ?thesis
    using t h l k1 v2 v3 p3 s2 s3 sample_run by simp
qed

section \<open>The partition filter\<close>

lemma word_char_not_special: "is_word_char c \<Longrightarrow> \<not> regex_special c"
  by (auto simp: is_word_char_def regex_special_def)

lemma compile_name_plain:
  "\<forall>c \<in> set tn. \<not> regex_special c \<Longrightarrow> compile_name tn = Some (map Lit tn)"
  by (induction tn) (auto simp: regex_special_def)

lemma match_atoms_iff:
  "match_atoms as s = Some r \<longleftrightarrow> (\<exists>u. s = u @ r \<and> list_all2 atom_ok as u)"
proof (induction as s rule: match_atoms.induct)
  case (1 s)
  show ?case by simp
next
  case (2 a as)
  show ?case by (simp add: list_all2_Cons1)
next
  case (3 a as c cs)
  show ?case
  proof (cases "atom_ok a c")
    case True
    with 3 show ?thesis by (auto simp: list_all2_Cons1 Cons_eq_append_conv)
  next
    case False
    then show ?thesis by (auto simp: list_all2_Cons1 Cons_eq_append_conv)
  qed
qed

lemma list_all2_Lit: "list_all2 atom_ok (map Lit tn) u \<longleftrightarrow> u = tn"
proof (induction tn arbitrary: u)
  case Nil
  show ?case by simp
next
  case (Cons c tn)
  then show ?case by (cases u) auto
qed

lemma list_all2_Digit:
  "list_all2 atom_ok (replicate n Digit) u \<longleftrightarrow> digits n u"
proof (induction n arbitrary: u)
  case 0
  show ?case by (auto simp: digits_def)
next
  case (Suc n)
  then show ?case by (cases u) (auto simp: digits_def)
qed

lemma re_match_plain:
  assumes "\<forall>c \<in> set tn. \<not> regex_special c"
  shows "re_match w tn name = Inr True \<longleftrightarrow>
         (\<exists>ds ts rest. digits 8 ds \<and> digits 6 ts \<and> at_dollar rest \<and>
            name = conventional_name tn ds ts @ rest)"
proof -
  let ?tail = "[Lit (CHR ''_''), Lit (CHR ''p'')] @ replicate 8 Digit @ [Lit (CHR ''_'')] @ replicate 6 Digit"
  have pat: "partition_pattern tn = Some (map Lit tn @ ?tail)"
    using compile_name_plain [OF assms] by (simp add: partition_pattern_def)
  have tail: "list_all2 atom_ok (map Lit tn @ ?tail) u \<longleftrightarrow>
        (\<exists>ds ts. digits 8 ds \<and> digits 6 ts \<and> u = conventional_name tn ds ts)" for u
  proof
    assume "list_all2 atom_ok (map Lit tn @ ?tail) u"
    then obtain u1 u2 u3 u4 u5 where
      "u = u1 @ u2 @ u3 @ u4 @ u5" "list_all2 atom_ok (map Lit tn) u1"
      "list_all2 atom_ok [Lit (CHR ''_''), Lit (CHR ''p'')] u2"
      "list_all2 atom_ok (replicate 8 Digit) u3"
      "list_all2 atom_ok [Lit (CHR ''_'')] u4"
      "list_all2 atom_ok (replicate 6 Digit) u5"
      unfolding list_all2_append1 by blast
    then show "\<exists>ds ts. digits 8 ds \<and> digits 6 ts \<and> u = conventional_name tn ds ts"
      unfolding list_all2_Lit list_all2_Digit
      by (auto simp: list_all2_Cons1 conventional_name_def)
  next
    assume "\<exists>ds ts. digits 8 ds \<and> digits 6 ts \<and> u = conventional_name tn ds ts"
    then obtain ds ts where d: "digits 8 ds" "digits 6 ts" "u = conventional_name tn ds ts"
      by blast
    have "list_all2 atom_ok (map Lit tn) tn" by (simp add: list_all2_Lit)
    moreover have "list_all2 atom_ok [Lit (CHR ''_''), Lit (CHR ''p'')] ''_p''" by simp
    moreover have "list_all2 atom_ok (replicate 8 Digit) ds" using d by (simp add: list_all2_Digit)
    moreover have "list_all2 atom_ok [Lit (CHR ''_'')] ''_''" by simp
    moreover have "list_all2 atom_ok (replicate 6 Digit) ts" using d by (simp add: list_all2_Digit)
    ultimately show "list_all2 atom_ok (map Lit tn @ ?tail) u"
      unfolding d(3) conventional_name_def by (intro list_all2_appendI)
  qed
  have "re_match w tn name = Inr True \<longleftrightarrow>
        (\<exists>rest. match_atoms (map Lit tn @ ?tail) name = Some rest \<and> at_dollar rest)"
    using pat by (auto simp: re_match_def split: option.splits)
  also have "\<dots> \<longleftrightarrow> (\<exists>rest u. name = u @ rest \<and> list_all2 atom_ok (map Lit tn @ ?tail) u \<and> at_dollar rest)"
    unfolding match_atoms_iff by blast
  also have "\<dots> \<longleftrightarrow> (\<exists>ds ts rest. digits 8 ds \<and> digits 6 ts \<and> at_dollar rest \<and>
            name = conventional_name tn ds ts @ rest)"
    unfolding tail by blast
  finally show ?thesis .
qed


lemma follows_convention_iff:
  "follows_convention tn name \<longleftrightarrow>
     (\<exists>ds ts. digits 8 ds \<and> digits 6 ts \<and> name = conventional_name tn ds ts)"
proof
  assume "follows_convention tn name"
  then show "\<exists>ds ts. digits 8 ds \<and> digits 6 ts \<and> name = conventional_name tn ds ts"
    unfolding follows_convention_def Let_def by blast
next
  assume "\<exists>ds ts. digits 8 ds \<and> digits 6 ts \<and> name = conventional_name tn ds ts"
  then obtain ds ts where d: "digits 8 ds" "digits 6 ts" "name = conventional_name tn ds ts"
    by blast
  have "take 8 (drop (length tn + 2) name) = ds" "drop (length tn + 11) name = ts"
    using d by (simp_all add: conventional_name_def digits_def)
  then show "follows_convention tn name"
    using d by (simp add: follows_convention_def)
qed

lemma at_dollar_cases:
  "(\<exists>rest. at_dollar rest \<and> name = u @ rest) \<longleftrightarrow>
     name = u \<or> (name \<noteq> [] \<and> last name = CHR 0x0A \<and> butlast name = u)"
proof -
  have "name \<noteq> [] \<Longrightarrow> last name = CHR 0x0A \<Longrightarrow> name = butlast name @ [CHR 0x0A]"
    using append_butlast_last_id [of name] by simp
  then show ?thesis
    by (auto simp: at_dollar_def butlast_append)
qed

text \<open>
  What the filter accepts, over the names of the model (characters with code points
  below 256): for a table name of letters, digits and underscores, the names of the
  convention and the same names followed by one line feed; for the table name
  \<open>a.b\<close> also \<open>axb_p20230101_000000\<close>, which both files then decode.
\<close>

lemma partition_filter_plain_names:
  "(list_all is_word_char tn \<longrightarrow>
      (re_match w tn name = Inr True \<longleftrightarrow>
         follows_convention tn name \<or>
         (name \<noteq> [] \<and> last name = CHR 0x0A \<and> follows_convention tn (butlast name)))) \<and>
   re_match w ''a.b'' ''axb_p20230101_000000'' = Inr True \<and>
   take 3 ''axb_p20230101_000000'' \<noteq> ''a.b'' \<and>
   srv_partition_datetime ''axb_p20230101_000000'' =
     Inr \<lparr>year = 2023, month = 1, day = 1, hour = 0, minute = 0, second = 0, microsecond = 0\<rparr> \<and>
   cli_partition_datetime ''axb_p20230101_000000'' =
     Inr \<lparr>year = 2023, month = 1, day = 1, hour = 0, minute = 0, second = 0, microsecond = 0\<rparr>"
proof -
  have a: "re_match w tn name = Inr True \<longleftrightarrow>
         follows_convention tn name \<or>
         (name \<noteq> [] \<and> last name = CHR 0x0A \<and> follows_convention tn (butlast name))"
    if "list_all is_word_char tn"
  proof -
    have plain: "\<forall>c \<in> set tn. \<not> regex_special c"
      using that word_char_not_special by (auto simp: list_all_iff)
    have "re_match w tn name = Inr True \<longleftrightarrow>
          (\<exists>ds ts. digits 8 ds \<and> digits 6 ts \<and>
             (\<exists>rest. at_dollar rest \<and> name = conventional_name tn ds ts @ rest))"
      unfolding re_match_plain [OF plain] by blast
    also have "\<dots> \<longleftrightarrow>
          (\<exists>ds ts. digits 8 ds \<and> digits 6 ts \<and>
             (name = conventional_name tn ds ts \<or>
              (name \<noteq> [] \<and> last name = CHR 0x0A \<and> butlast name = conventional_name tn ds ts)))"
      unfolding at_dollar_cases ..
    also have "\<dots> \<longleftrightarrow> follows_convention tn name \<or>
         (name \<noteq> [] \<and> last name = CHR 0x0A \<and> follows_convention tn (butlast name))"
      unfolding follows_convention_iff by blast
    finally show ?thesis .
  qed
  have b: "re_match w ''a.b'' ''axb_p20230101_000000'' = Inr True"
    by (simp add: re_match_def partition_pattern_def regex_special_def at_dollar_def
          is_digit_def eval_nat_numeral)
  have c: "srv_partition_datetime ''axb_p20230101_000000'' =
     Inr \<lparr>year = 2023, month = 1, day = 1, hour = 0, minute = 0, second = 0, microsecond = 0\<rparr>"
    by code_simp
  have d: "cli_partition_datetime ''axb_p20230101_000000'' =
     Inr \<lparr>year = 2023, month = 1, day = 1, hour = 0, minute = 0, second = 0, microsecond = 0\<rparr>"
    by code_simp
  show ?thesis using a b c d by simp
qed

text \<open>
  Claim C10. The table name goes into the pattern unescaped: for a table name of
  letters, digits and underscores the match is the literal naming convention, while
  for a table name with a special character there is a name that does not start with
  the table name and is accepted and decoded all the same. The second part holds (the
  lemma above has \<open>a.b\<close>). The first part fails on the code: \<^verbatim>\<open>$\<close> also matches
  before a final line feed, so for the table \<open>t\<close> the name \<open>t_p20230101_000000\<close>
  followed by a line feed passes the filter of both files, though it is not a name of
  the convention the code's own comment says the pattern is to match. The service
  then fails to decode the name and skips it; in the script the \<^verbatim>\<open>ValueError\<close> of the
  unguarded \<^verbatim>\<open>strptime\<close> leaves the pass.
\<close>

theorem trailing_line_feed_passes_filter:
  "list_all is_word_char ''t'' \<and>
   re_match (example_env ''t'' [] 0) ''t'' (''t_p20230101_000000'' @ [CHR 0x0A]) = Inr True \<and>
   \<not> follows_convention ''t'' (''t_p20230101_000000'' @ [CHR 0x0A]) \<and>
   srv_partition_datetime (''t_p20230101_000000'' @ [CHR 0x0A]) =
     Inl (ValueError ''unconverted data remains'') \<and>
   cli_partition_datetime (''t_p20230101_000000'' @ [CHR 0x0A]) =
     Inl (ValueError ''unconverted data remains'')"
  by code_simp

end
